theory Spec2Isabelle
  imports Complex_Main "HOL-Library.Word" "HOL-Library.Signed_Division"
begin

unbundle bit_operations_syntax

chapter \<open>Grisu2 binary-to-decimal conversion (grisu2.h)\<close>

text \<open>
  A shallow embedding of \<^verbatim>\<open>src/grisu2.h\<close>.  Conventions:
  \<^item> \<^verbatim>\<open>uint64_t\<close> and \<^verbatim>\<open>uint32_t\<close> are \<open>64 word\<close> and \<open>32 word\<close>; their arithmetic wraps.
  \<^item> \<^verbatim>\<open>int\<close> is \<open>int\<close>.  Signed overflow is undefined in C++; all \<^verbatim>\<open>int\<close> quantities of
    this code are exponents, digit counts and table indices of a few decimal digits.
    Division of \<^verbatim>\<open>int\<close>s truncates towards zero (\<open>sdiv\<close>).
  \<^item> A \<^verbatim>\<open>char*\<close> is an address (\<open>int\<close>) into a byte memory \<open>int \<Rightarrow> char\<close>; a function that
    writes through a pointer takes the memory and returns the updated memory.
  \<^item> \<^verbatim>\<open>assert(c)\<close> aborts the program when \<open>c\<close> is false: a function returns
    \<open>Abort ''c''\<close>, carrying the text of the failed assertion, or \<open>Return v\<close>.  A loop that
    might not terminate yields \<open>None\<close>.
  \<^item> A floating-point argument is its IEEE-754 bit pattern; the template parameter
    \<^verbatim>\<open>Fp\<close> ranges over \<^verbatim>\<open>float\<close> and \<^verbatim>\<open>double\<close>.
  \<^item> Where the source selects an implementation by preprocessor, each branch that a claim
    concerns is embedded under its own name; the branch taken with GCC/Clang on a
    64-bit target is the one the callers use.
\<close>

section \<open>Results of functions that may abort\<close>

type_synonym 'a result = "(string + 'a) option"

abbreviation Abort :: "string \<Rightarrow> 'a result" where
  "Abort msg \<equiv> Some (Inl msg)"

abbreviation Return :: "'a \<Rightarrow> 'a result" where
  "Return v \<equiv> Some (Inr v)"

definition bind :: "'a result \<Rightarrow> ('a \<Rightarrow> 'b result) \<Rightarrow> 'b result" where
  "bind m k = (case m of None \<Rightarrow> None | Some (Inl msg) \<Rightarrow> Abort msg | Some (Inr v) \<Rightarrow> k v)"

type_synonym memory = "int \<Rightarrow> char"

text \<open>The bytes \<open>[p, p + n)\<close> of a memory.\<close>

definition bytes :: "memory \<Rightarrow> int \<Rightarrow> nat \<Rightarrow> string" where
  "bytes mem p n = map (\<lambda>i. mem (p + int i)) [0..<n]"

section \<open>DiyFp\<close>

text \<open>\<^verbatim>\<open>struct DiyFp { uint64_t f; int e; }\<close>, the number \<open>f * 2^e\<close>.  The fields are read by
  \<open>f_of\<close> and \<open>e_of\<close>.\<close>

datatype DiyFp = DiyFp (f_of: "64 word") (e_of: int)

definition Subtract :: "DiyFp \<Rightarrow> DiyFp \<Rightarrow> DiyFp result" where
  "Subtract x y =
     (if \<not> e_of x = e_of y then Abort ''x.e == y.e''
      else if \<not> f_of x \<ge> f_of y then Abort ''x.f >= y.f''
      else Return (DiyFp (f_of x - f_of y) (e_of x)))"

text \<open>\<^verbatim>\<open>Multiply\<close>, branch \<^verbatim>\<open>_MSC_VER && _M_X64\<close>: \<^verbatim>\<open>_umul128\<close> returns the low half of the
  128-bit product and stores the high half.\<close>

definition umul128 :: "64 word \<Rightarrow> 64 word \<Rightarrow> 64 word \<times> 64 word" where
  "umul128 a b = (word_of_nat (unat a * unat b), word_of_nat (unat a * unat b div 2 ^ 64))"

definition Multiply_umul128 :: "DiyFp \<Rightarrow> DiyFp \<Rightarrow> DiyFp" where
  "Multiply_umul128 x y =
     (let (l, h) = umul128 (f_of x) (f_of y);
          h = h + drop_bit 63 l
      in DiyFp h (e_of x + e_of y + 64))"

text \<open>\<^verbatim>\<open>Multiply\<close>, branch \<^verbatim>\<open>__GNUC__ && __SIZEOF_INT128__\<close>.\<close>

definition Multiply_int128 :: "DiyFp \<Rightarrow> DiyFp \<Rightarrow> DiyFp" where
  "Multiply_int128 x y =
     (let p = (ucast (f_of x) :: 128 word) * ucast (f_of y);
          h = (ucast (drop_bit 64 p) :: 64 word);
          l = (ucast p :: 64 word);
          h = h + drop_bit 63 l
      in DiyFp h (e_of x + e_of y + 64))"

text \<open>\<^verbatim>\<open>Multiply\<close>, the portable branch: four 32x32 products.\<close>

definition Multiply_schoolbook :: "DiyFp \<Rightarrow> DiyFp \<Rightarrow> DiyFp" where
  "Multiply_schoolbook x y =
     (let u_lo = (ucast (f_of x) :: 32 word);
          u_hi = (ucast (drop_bit 32 (f_of x)) :: 32 word);
          v_lo = (ucast (f_of y) :: 32 word);
          v_hi = (ucast (drop_bit 32 (f_of y)) :: 32 word);
          p0 = (ucast u_lo :: 64 word) * ucast v_lo;
          p1 = (ucast u_lo :: 64 word) * ucast v_hi;
          p2 = (ucast u_hi :: 64 word) * ucast v_lo;
          p3 = (ucast u_hi :: 64 word) * ucast v_hi;
          p0_hi = drop_bit 32 p0;
          p1_lo = p1 AND 0xFFFFFFFF;
          p1_hi = drop_bit 32 p1;
          p2_lo = p2 AND 0xFFFFFFFF;
          p2_hi = drop_bit 32 p2;
          Q = p0_hi + p1_lo + p2_lo;
          Q = Q + push_bit (63 - 32) 1;
          h = p3 + p2_hi + p1_hi + drop_bit 32 Q
      in DiyFp h (e_of x + e_of y + 64))"

definition Multiply :: "DiyFp \<Rightarrow> DiyFp \<Rightarrow> DiyFp" where
  "Multiply = Multiply_int128"

text \<open>The function the specification gives for \<^verbatim>\<open>Multiply\<close>, in its words: significand
  \<open>\<lfloor>(x.f * y.f + 2^63) / 2^64\<rfloor>\<close>, exponent \<open>x.e + y.e + 64\<close>.\<close>

definition Multiply_spec :: "DiyFp \<Rightarrow> DiyFp \<Rightarrow> DiyFp" where
  "Multiply_spec x y =
     DiyFp (word_of_nat ((unat (f_of x) * unat (f_of y) + 2 ^ 63) div 2 ^ 64)) (e_of x + e_of y + 64)"

text \<open>\<^verbatim>\<open>__builtin_clzll\<close>: the number of leading zero bits of a non-zero 64-bit value,
  counted from bit 63 downwards.\<close>

primrec clz_from :: "nat \<Rightarrow> 64 word \<Rightarrow> nat" where
  "clz_from 0 x = 0"
| "clz_from (Suc n) x = (if bit x n then 0 else Suc (clz_from n x))"

definition builtin_clzll :: "64 word \<Rightarrow> nat" where
  "builtin_clzll x = clz_from 64 x"

text \<open>\<^verbatim>\<open>Normalize\<close>, branch \<^verbatim>\<open>__GNUC__\<close>.\<close>

definition Normalize :: "DiyFp \<Rightarrow> DiyFp result" where
  "Normalize x =
     (if \<not> f_of x \<noteq> 0 then Abort ''x.f != 0''
      else let lz = builtin_clzll (f_of x)
           in Return (DiyFp (push_bit lz (f_of x)) (e_of x - int lz)))"

definition NormalizeTo :: "DiyFp \<Rightarrow> int \<Rightarrow> DiyFp result" where
  "NormalizeTo x e =
     (let delta = e_of x - e
      in if \<not> delta \<ge> 0 then Abort ''delta >= 0''
         else if \<not> drop_bit (nat delta) (push_bit (nat delta) (f_of x)) = f_of x
           then Abort ''((x.f << delta) >> delta) == x.f''
         else Return (DiyFp (push_bit (nat delta) (f_of x)) e))"

section \<open>IEEE-754 values\<close>

text \<open>A \<^verbatim>\<open>float\<close> or \<^verbatim>\<open>double\<close> argument, given by its bit pattern.\<close>

datatype Fp = Single "32 word" | Double "64 word"

text \<open>\<^verbatim>\<open>std::numeric_limits<Fp>\<close>: \<^verbatim>\<open>digits\<close>, \<^verbatim>\<open>max_exponent\<close>, \<^verbatim>\<open>max_digits10\<close>; and the width
  of the type in bits.\<close>

fun digits :: "Fp \<Rightarrow> nat" where
  "digits (Single b) = 24"
| "digits (Double b) = 53"

fun max_exponent :: "Fp \<Rightarrow> nat" where
  "max_exponent (Single b) = 128"
| "max_exponent (Double b) = 1024"

fun max_digits10 :: "Fp \<Rightarrow> int" where
  "max_digits10 (Single b) = 9"
| "max_digits10 (Double b) = 17"

fun width :: "Fp \<Rightarrow> nat" where
  "width (Single b) = 32"
| "width (Double b) = 64"

text \<open>\<^verbatim>\<open>ReinterpretBits<bits_type>(value)\<close>; the 32 bits of a \<^verbatim>\<open>float\<close> are kept in the low half.\<close>

fun ReinterpretBits :: "Fp \<Rightarrow> 64 word" where
  "ReinterpretBits (Single b) = ucast b"
| "ReinterpretBits (Double b) = b"

text \<open>The fields of the encoding: sign, biased exponent, fraction.\<close>

definition sign_field :: "Fp \<Rightarrow> bool" where
  "sign_field value = bit (ReinterpretBits value) (width value - 1)"

definition exponent_field :: "Fp \<Rightarrow> 64 word" where
  "exponent_field value =
     drop_bit (digits value - 1) (ReinterpretBits value) AND (2 ^ (width value - digits value) - 1)"

definition fraction_field :: "Fp \<Rightarrow> 64 word" where
  "fraction_field value = ReinterpretBits value AND (2 ^ (digits value - 1) - 1)"

text \<open>\<^verbatim>\<open>std::isnan\<close>, \<^verbatim>\<open>std::isinf\<close>, \<^verbatim>\<open>std::isfinite\<close>, \<^verbatim>\<open>std::signbit\<close>, unary minus, and the
  comparisons \<^verbatim>\<open>value > 0\<close> and \<^verbatim>\<open>value == 0\<close>, as IEEE-754 defines them on the encoding.\<close>

definition exponent_all_ones :: "Fp \<Rightarrow> 64 word" where
  "exponent_all_ones value = 2 ^ (width value - digits value) - 1"

definition isnan :: "Fp \<Rightarrow> bool" where
  "isnan value \<longleftrightarrow>
     exponent_field value = exponent_all_ones value \<and> fraction_field value \<noteq> 0"

definition isinf :: "Fp \<Rightarrow> bool" where
  "isinf value \<longleftrightarrow>
     exponent_field value = exponent_all_ones value \<and> fraction_field value = 0"

definition isfinite :: "Fp \<Rightarrow> bool" where
  "isfinite value \<longleftrightarrow> exponent_field value \<noteq> exponent_all_ones value"

definition signbit :: "Fp \<Rightarrow> bool" where
  "signbit value = sign_field value"

definition is_zero :: "Fp \<Rightarrow> bool" where
  "is_zero value \<longleftrightarrow> exponent_field value = 0 \<and> fraction_field value = 0"

definition greater_zero :: "Fp \<Rightarrow> bool" where
  "greater_zero value \<longleftrightarrow> \<not> isnan value \<and> \<not> sign_field value \<and> \<not> is_zero value"

fun negate :: "Fp \<Rightarrow> Fp" where
  "negate (Single b) = Single (b XOR push_bit 31 1)"
| "negate (Double b) = Double (b XOR push_bit 63 1)"

text \<open>The rational number a finite value encodes: \<open>\<plusminus> decode_f * 2^decode_e\<close>, with the
  hidden bit added to the fraction of a normal number.\<close>

definition bias :: "Fp \<Rightarrow> int" where
  "bias value = int (max_exponent value) - 1 + (int (digits value) - 1)"

definition decode_f :: "Fp \<Rightarrow> nat" where
  "decode_f value =
     (if exponent_field value = 0 then unat (fraction_field value)
      else unat (fraction_field value) + 2 ^ (digits value - 1))"

definition decode_e :: "Fp \<Rightarrow> int" where
  "decode_e value =
     (if exponent_field value = 0 then 1 - bias value
      else int (unat (exponent_field value)) - bias value)"

definition Fp_value :: "Fp \<Rightarrow> rat" where
  "Fp_value value =
     (if sign_field value then - 1 else 1) * of_nat (decode_f value) * 2 powi (decode_e value)"

text \<open>The rational number a DiyFp denotes.\<close>

definition DiyFp_value :: "DiyFp \<Rightarrow> rat" where
  "DiyFp_value x = of_nat (unat (f_of x)) * 2 powi (e_of x)"

section \<open>Boundaries\<close>

datatype Boundaries = Boundaries (v_of: DiyFp) (m_minus_of: DiyFp) (m_plus_of: DiyFp)

text \<open>\<^verbatim>\<open>static_cast<int>\<close> of an unsigned 64-bit value.\<close>

definition static_cast_int :: "64 word \<Rightarrow> int" where
  "static_cast_int x = sint (ucast x :: 32 word)"

definition ComputeBoundaries :: "Fp \<Rightarrow> Boundaries result" where
  "ComputeBoundaries value =
     (if \<not> isfinite value then Abort ''std::isfinite(value)''
      else if \<not> greater_zero value then Abort ''value > 0''
      else
        let kPrecision = digits value;
            kBias = int (max_exponent value) - 1 + (int kPrecision - 1);
            kHiddenBit = (push_bit (kPrecision - 1) 1 :: 64 word);
            bits = ReinterpretBits value;
            E = drop_bit (kPrecision - 1) bits;
            F = bits AND (kHiddenBit - 1);
            is_denormal = (E = 0);
            v = (if is_denormal
                 then DiyFp F (1 - kBias)
                 else DiyFp (F + kHiddenBit) (static_cast_int E - kBias));
            lower_boundary_is_closer = (F = 0 \<and> E > 1);
            m_plus = DiyFp (2 * f_of v + 1) (e_of v - 1);
            m_minus = (if lower_boundary_is_closer
                       then DiyFp (4 * f_of v - 1) (e_of v - 2)
                       else DiyFp (2 * f_of v - 1) (e_of v - 1))
        in bind (Normalize v) (\<lambda>w.
           bind (NormalizeTo m_plus (e_of w)) (\<lambda>w_plus.
           bind (NormalizeTo m_minus (e_of w_plus)) (\<lambda>w_minus.
           Return (Boundaries w w_minus w_plus)))))"

text \<open>The value of the local \<^verbatim>\<open>lower_boundary_is_closer\<close> of \<^verbatim>\<open>ComputeBoundaries\<close>, and the
  number of leading zeros that \<^verbatim>\<open>Normalize\<close> removes from the decoded significand.\<close>

definition lower_boundary_is_closer :: "Fp \<Rightarrow> bool" where
  "lower_boundary_is_closer value \<longleftrightarrow> fraction_field value = 0 \<and> exponent_field value > 1"

definition boundaries_lz :: "Fp \<Rightarrow> nat" where
  "boundaries_lz value = builtin_clzll (word_of_nat (decode_f value))"

section \<open>Cached powers of ten\<close>

definition kAlpha :: int where "kAlpha = - 60"
definition kGamma :: int where "kGamma = - 32"

text \<open>\<^verbatim>\<open>struct CachedPower { uint64_t f; int e; int k; }\<close>: \<open>f * 2^e\<close> approximates \<open>10^k\<close>.\<close>

datatype CachedPower = CachedPower (cf_of: "64 word") (ce_of: int) (ck_of: int)

definition kCachedPowersSize :: int where "kCachedPowersSize = 79"
definition kCachedPowersMinDecExp :: int where "kCachedPowersMinDecExp = - 300"
definition kCachedPowersMaxDecExp :: int where "kCachedPowersMaxDecExp = 324"
definition kCachedPowersDecExpStep :: int where "kCachedPowersDecExpStep = 8"

definition kCachedPowers :: "CachedPower list" where
  "kCachedPowers =
    [
     CachedPower 0xAB70FE17C79AC6CA (- 1060) (- 300),
     CachedPower 0xFF77B1FCBEBCDC4F (- 1034) (- 292),
     CachedPower 0xBE5691EF416BD60C (- 1007) (- 284),
     CachedPower 0x8DD01FAD907FFC3C (- 980) (- 276),
     CachedPower 0xD3515C2831559A83 (- 954) (- 268),
     CachedPower 0x9D71AC8FADA6C9B5 (- 927) (- 260),
     CachedPower 0xEA9C227723EE8BCB (- 901) (- 252),
     CachedPower 0xAECC49914078536D (- 874) (- 244),
     CachedPower 0x823C12795DB6CE57 (- 847) (- 236),
     CachedPower 0xC21094364DFB5637 (- 821) (- 228),
     CachedPower 0x9096EA6F3848984F (- 794) (- 220),
     CachedPower 0xD77485CB25823AC7 (- 768) (- 212),
     CachedPower 0xA086CFCD97BF97F4 (- 741) (- 204),
     CachedPower 0xEF340A98172AACE5 (- 715) (- 196),
     CachedPower 0xB23867FB2A35B28E (- 688) (- 188),
     CachedPower 0x84C8D4DFD2C63F3B (- 661) (- 180),
     CachedPower 0xC5DD44271AD3CDBA (- 635) (- 172),
     CachedPower 0x936B9FCEBB25C996 (- 608) (- 164),
     CachedPower 0xDBAC6C247D62A584 (- 582) (- 156),
     CachedPower 0xA3AB66580D5FDAF6 (- 555) (- 148),
     CachedPower 0xF3E2F893DEC3F126 (- 529) (- 140),
     CachedPower 0xB5B5ADA8AAFF80B8 (- 502) (- 132),
     CachedPower 0x87625F056C7C4A8B (- 475) (- 124),
     CachedPower 0xC9BCFF6034C13053 (- 449) (- 116),
     CachedPower 0x964E858C91BA2655 (- 422) (- 108),
     CachedPower 0xDFF9772470297EBD (- 396) (- 100),
     CachedPower 0xA6DFBD9FB8E5B88F (- 369) (- 92),
     CachedPower 0xF8A95FCF88747D94 (- 343) (- 84),
     CachedPower 0xB94470938FA89BCF (- 316) (- 76),
     CachedPower 0x8A08F0F8BF0F156B (- 289) (- 68),
     CachedPower 0xCDB02555653131B6 (- 263) (- 60),
     CachedPower 0x993FE2C6D07B7FAC (- 236) (- 52),
     CachedPower 0xE45C10C42A2B3B06 (- 210) (- 44),
     CachedPower 0xAA242499697392D3 (- 183) (- 36),
     CachedPower 0xFD87B5F28300CA0E (- 157) (- 28),
     CachedPower 0xBCE5086492111AEB (- 130) (- 20),
     CachedPower 0x8CBCCC096F5088CC (- 103) (- 12),
     CachedPower 0xD1B71758E219652C (- 77) (- 4),
     CachedPower 0x9C40000000000000 (- 50) 4,
     CachedPower 0xE8D4A51000000000 (- 24) 12,
     CachedPower 0xAD78EBC5AC620000 3 20,
     CachedPower 0x813F3978F8940984 30 28,
     CachedPower 0xC097CE7BC90715B3 56 36,
     CachedPower 0x8F7E32CE7BEA5C70 83 44,
     CachedPower 0xD5D238A4ABE98068 109 52,
     CachedPower 0x9F4F2726179A2245 136 60,
     CachedPower 0xED63A231D4C4FB27 162 68,
     CachedPower 0xB0DE65388CC8ADA8 189 76,
     CachedPower 0x83C7088E1AAB65DB 216 84,
     CachedPower 0xC45D1DF942711D9A 242 92,
     CachedPower 0x924D692CA61BE758 269 100,
     CachedPower 0xDA01EE641A708DEA 295 108,
     CachedPower 0xA26DA3999AEF774A 322 116,
     CachedPower 0xF209787BB47D6B85 348 124,
     CachedPower 0xB454E4A179DD1877 375 132,
     CachedPower 0x865B86925B9BC5C2 402 140,
     CachedPower 0xC83553C5C8965D3D 428 148,
     CachedPower 0x952AB45CFA97A0B3 455 156,
     CachedPower 0xDE469FBD99A05FE3 481 164,
     CachedPower 0xA59BC234DB398C25 508 172,
     CachedPower 0xF6C69A72A3989F5C 534 180,
     CachedPower 0xB7DCBF5354E9BECE 561 188,
     CachedPower 0x88FCF317F22241E2 588 196,
     CachedPower 0xCC20CE9BD35C78A5 614 204,
     CachedPower 0x98165AF37B2153DF 641 212,
     CachedPower 0xE2A0B5DC971F303A 667 220,
     CachedPower 0xA8D9D1535CE3B396 694 228,
     CachedPower 0xFB9B7CD9A4A7443C 720 236,
     CachedPower 0xBB764C4CA7A44410 747 244,
     CachedPower 0x8BAB8EEFB6409C1A 774 252,
     CachedPower 0xD01FEF10A657842C 800 260,
     CachedPower 0x9B10A4E5E9913129 827 268,
     CachedPower 0xE7109BFBA19C0C9D 853 276,
     CachedPower 0xAC2820D9623BF429 880 284,
     CachedPower 0x80444B5E7AA7CF85 907 292,
     CachedPower 0xBF21E44003ACDD2D 933 300,
     CachedPower 0x8E679C2F5E44FF8F 960 308,
     CachedPower 0xD433179D9C8CB841 986 316,
     CachedPower 0x9E19DB92B4E31BA9 1013 324
    ]"

definition GetCachedPower :: "int \<Rightarrow> CachedPower result" where
  "GetCachedPower index =
     (if \<not> index \<ge> 0 then Abort ''index >= 0''
      else if \<not> index < kCachedPowersSize then Abort ''index < kCachedPowersSize''
      else Return (kCachedPowers ! nat index))"

definition GetCachedPowerForBinaryExponent :: "int \<Rightarrow> CachedPower result" where
  "GetCachedPowerForBinaryExponent e =
     (if \<not> e \<ge> - 1500 then Abort ''e >= -1500''
      else if \<not> e \<le> 1500 then Abort ''e <= 1500''
      else
        let f = kAlpha - e - 1;
            k = (f * 78913) sdiv (2 ^ 18) + (if f > 0 then 1 else 0);
            index = (- kCachedPowersMinDecExp + k + (kCachedPowersDecExpStep - 1))
                      sdiv kCachedPowersDecExpStep
        in if \<not> index \<ge> 0 then Abort ''index >= 0''
           else if \<not> index < kCachedPowersSize then Abort ''index < kCachedPowersSize''
           else bind (GetCachedPower index) (\<lambda>cached.
             if \<not> kAlpha \<le> ce_of cached + e + 64 then Abort ''kAlpha <= cached.e + e + 64''
             else if \<not> kGamma \<ge> ce_of cached + e + 64 then Abort ''kGamma >= cached.e + e + 64''
             else Return cached))"

text \<open>The values of the locals \<^verbatim>\<open>k\<close> and \<^verbatim>\<open>index\<close> of \<^verbatim>\<open>GetCachedPowerForBinaryExponent\<close>.\<close>

definition cached_power_k :: "int \<Rightarrow> int" where
  "cached_power_k e =
     (let f = kAlpha - e - 1 in (f * 78913) sdiv (2 ^ 18) + (if f > 0 then 1 else 0))"

definition cached_power_index :: "int \<Rightarrow> int" where
  "cached_power_index e =
     (- kCachedPowersMinDecExp + cached_power_k e + (kCachedPowersDecExpStep - 1))
       sdiv kCachedPowersDecExpStep"

text \<open>The formula the specification gives for \<^verbatim>\<open>k\<close>, in its words:
  \<open>\<lfloor>f * 78913 / 2^18\<rfloor> + (1 if f > 0 else 0)\<close> with \<open>f = \<alpha> - e - 1\<close>.\<close>

definition cached_power_k_spec :: "int \<Rightarrow> int" where
  "cached_power_k_spec e =
     (let f = kAlpha - e - 1 in (f * 78913) div (2 ^ 18) + (if f > 0 then 1 else 0))"

text \<open>For each table index, the binary exponents in \<open>[-1137, 960]\<close> that select it:
  \<open>(index, lowest e, highest e)\<close>.\<close>

definition exponent_ranges :: "(int \<times> int \<times> int) list" where
  "exponent_ranges =
    [
     (0, 936, 960), (1, 910, 935), (2, 883, 909), (3, 856, 882),
     (4, 830, 855), (5, 803, 829), (6, 777, 802), (7, 750, 776),
     (8, 723, 749), (9, 697, 722), (10, 670, 696), (11, 644, 669),
     (12, 617, 643), (13, 591, 616), (14, 564, 590), (15, 537, 563),
     (16, 511, 536), (17, 484, 510), (18, 458, 483), (19, 431, 457),
     (20, 405, 430), (21, 378, 404), (22, 351, 377), (23, 325, 350),
     (24, 298, 324), (25, 272, 297), (26, 245, 271), (27, 219, 244),
     (28, 192, 218), (29, 165, 191), (30, 139, 164), (31, 112, 138),
     (32, 86, 111), (33, 59, 85), (34, 33, 58), (35, 6, 32),
     (36, - 21, 5), (37, - 47, - 22), (38, - 74, - 48), (39, - 100, - 75),
     (40, - 127, - 101), (41, - 154, - 128), (42, - 180, - 155), (43, - 207, - 181),
     (44, - 233, - 208), (45, - 260, - 234), (46, - 286, - 261), (47, - 313, - 287),
     (48, - 340, - 314), (49, - 366, - 341), (50, - 393, - 367), (51, - 419, - 394),
     (52, - 446, - 420), (53, - 472, - 447), (54, - 499, - 473), (55, - 526, - 500),
     (56, - 552, - 527), (57, - 579, - 553), (58, - 605, - 580), (59, - 632, - 606),
     (60, - 658, - 633), (61, - 685, - 659), (62, - 712, - 686), (63, - 738, - 713),
     (64, - 765, - 739), (65, - 791, - 766), (66, - 818, - 792), (67, - 844, - 819),
     (68, - 871, - 845), (69, - 898, - 872), (70, - 924, - 899), (71, - 951, - 925),
     (72, - 977, - 952), (73, - 1004, - 978), (74, - 1031, - 1005), (75, - 1057, - 1032),
     (76, - 1084, - 1058), (77, - 1110, - 1085), (78, - 1137, - 1111)
    ]"

fun chain_ok :: "int \<Rightarrow> (int \<times> int \<times> int) list \<Rightarrow> bool" where
  "chain_ok t [] = True"
| "chain_ok t ((i, lo, hi) # rs) = (hi = t \<and> lo \<le> hi \<and> chain_ok (lo - 1) rs)"

fun chain_bottom :: "int \<Rightarrow> (int \<times> int \<times> int) list \<Rightarrow> int" where
  "chain_bottom t [] = t"
| "chain_bottom t ((i, lo, hi) # rs) = chain_bottom (lo - 1) rs"

definition range_ok :: "(int \<times> int \<times> int) \<Rightarrow> CachedPower \<Rightarrow> bool" where
  "range_ok r c \<longleftrightarrow>
      cached_power_index (fst (snd r)) = fst r \<and> cached_power_index (snd (snd r)) = fst r
      \<and> kAlpha \<le> ce_of c + fst (snd r) + 64 \<and> ce_of c + snd (snd r) + 64 \<le> kGamma"

section \<open>Digit output\<close>

definition kDigits100 :: string where
  "kDigits100 = ''00010203040506070809101112131415161718192021222324252627282930313233343536373839404142434445464748495051525354555657585960616263646566676869707172737475767778798081828384858687888990919293949596979899''"

text \<open>\<^verbatim>\<open>char\<close> to \<^verbatim>\<open>int\<close> and back: a byte is read as its code \<open>0..255\<close> (the ASCII digits are the
  same whether \<^verbatim>\<open>char\<close> is signed or not); the conversion to \<^verbatim>\<open>char\<close> keeps the low 8 bits.\<close>

definition Utoa100 :: "memory \<Rightarrow> int \<Rightarrow> 32 word \<Rightarrow> (memory \<times> int) result" where
  "Utoa100 mem buf digits' =
     (if \<not> digits' < 100 then Abort ''digits < 100''
      else Return (mem(buf := kDigits100 ! (2 * unat digits'),
                       buf + 1 := kDigits100 ! (2 * unat digits' + 1)),
                   buf + 2))"

text \<open>\<^verbatim>\<open>GenerateIntegralDigits\<close>: the code from each label to the \<^verbatim>\<open>return\<close> is one function.\<close>

definition L_1_digit :: "memory \<Rightarrow> int \<Rightarrow> 32 word \<Rightarrow> (memory \<times> int) result" where
  "L_1_digit mem buf n = Return (mem(buf := char_of (of_char (CHR ''0'') + unat n)), buf + 1)"

definition L_3_digits :: "memory \<Rightarrow> int \<Rightarrow> 32 word \<Rightarrow> (memory \<times> int) result" where
  "L_3_digits mem buf n =
     bind (Utoa100 mem buf (n div 10)) (\<lambda>(mem, buf). L_1_digit mem buf (n mod 10))"

definition L_5_digits :: "memory \<Rightarrow> int \<Rightarrow> 32 word \<Rightarrow> (memory \<times> int) result" where
  "L_5_digits mem buf n =
     bind (Utoa100 mem buf (n div 1000)) (\<lambda>(mem, buf). L_3_digits mem buf (n mod 1000))"

definition L_7_digits :: "memory \<Rightarrow> int \<Rightarrow> 32 word \<Rightarrow> (memory \<times> int) result" where
  "L_7_digits mem buf n =
     bind (Utoa100 mem buf (n div 100000)) (\<lambda>(mem, buf). L_5_digits mem buf (n mod 100000))"

definition L_9_digits :: "memory \<Rightarrow> int \<Rightarrow> 32 word \<Rightarrow> (memory \<times> int) result" where
  "L_9_digits mem buf n =
     bind (Utoa100 mem buf (n div 10000000)) (\<lambda>(mem, buf). L_7_digits mem buf (n mod 10000000))"

definition L_2_digits :: "memory \<Rightarrow> int \<Rightarrow> 32 word \<Rightarrow> (memory \<times> int) result" where
  "L_2_digits mem buf n = Utoa100 mem buf n"

definition L_4_digits :: "memory \<Rightarrow> int \<Rightarrow> 32 word \<Rightarrow> (memory \<times> int) result" where
  "L_4_digits mem buf n =
     bind (Utoa100 mem buf (n div 100)) (\<lambda>(mem, buf). L_2_digits mem buf (n mod 100))"

definition L_6_digits :: "memory \<Rightarrow> int \<Rightarrow> 32 word \<Rightarrow> (memory \<times> int) result" where
  "L_6_digits mem buf n =
     bind (Utoa100 mem buf (n div 10000)) (\<lambda>(mem, buf). L_4_digits mem buf (n mod 10000))"

definition L_8_digits :: "memory \<Rightarrow> int \<Rightarrow> 32 word \<Rightarrow> (memory \<times> int) result" where
  "L_8_digits mem buf n =
     bind (Utoa100 mem buf (n div 1000000)) (\<lambda>(mem, buf). L_6_digits mem buf (n mod 1000000))"

definition GenerateIntegralDigits :: "memory \<Rightarrow> int \<Rightarrow> 32 word \<Rightarrow> (memory \<times> int) result" where
  "GenerateIntegralDigits mem buf n =
     (if \<not> n \<le> 798336123 then Abort ''n <= 798336123''
      else if n \<ge> 100000000 then L_9_digits mem buf n
      else if n \<ge> 10000000 then L_8_digits mem buf n
      else if n \<ge> 1000000 then L_7_digits mem buf n
      else if n \<ge> 100000 then L_6_digits mem buf n
      else if n \<ge> 10000 then L_5_digits mem buf n
      else if n \<ge> 1000 then L_4_digits mem buf n
      else if n \<ge> 100 then L_3_digits mem buf n
      else if n \<ge> 10 then L_2_digits mem buf n
      else L_1_digit mem buf n)"

section \<open>Grisu2Round\<close>

text \<open>The \<^verbatim>\<open>while\<close> loop of \<^verbatim>\<open>Grisu2Round\<close> on \<open>(digit, rest)\<close>.  It need not terminate when
  \<open>ten_kappa = 0\<close>.\<close>

partial_function (option) Grisu2Round_loop ::
  "int \<Rightarrow> 64 word \<Rightarrow> 64 word \<Rightarrow> 64 word \<Rightarrow> 64 word \<Rightarrow> (int \<times> 64 word) result" where
  "Grisu2Round_loop digit rest distance delta ten_kappa =
     (if rest < distance
         \<and> delta - rest \<ge> ten_kappa
         \<and> (rest + ten_kappa \<le> distance \<or> rest + ten_kappa - distance < distance - rest)
      then if \<not> digit \<noteq> 0 then Abort ''digit != 0''
           else Grisu2Round_loop (digit - 1) (rest + ten_kappa) distance delta ten_kappa
      else Return (digit, rest))"

definition Grisu2Round ::
  "memory \<Rightarrow> int \<Rightarrow> int \<Rightarrow> 64 word \<Rightarrow> 64 word \<Rightarrow> 64 word \<Rightarrow> 64 word \<Rightarrow> memory result" where
  "Grisu2Round mem buffer length' distance delta rest ten_kappa =
     (if \<not> length' \<ge> 1 then Abort ''length >= 1''
      else if \<not> distance \<le> delta then Abort ''distance <= delta''
      else if \<not> rest \<le> delta then Abort ''rest <= delta''
      else if \<not> ten_kappa > 0 then Abort ''ten_kappa > 0''
      else
        let digit = of_char (mem (buffer + (length' - 1))) - of_char (CHR ''0'')
        in bind (Grisu2Round_loop digit rest distance delta ten_kappa) (\<lambda>(digit, rest).
           Return (mem(buffer + (length' - 1) := char_of (of_char (CHR ''0'') + digit)))))"

section \<open>Grisu2DigitGen\<close>

definition UINT64_MAX :: "64 word" where
  "UINT64_MAX = 0xFFFFFFFFFFFFFFFF"

text \<open>What the two branches of \<^verbatim>\<open>Grisu2DigitGen\<close> hand to \<^verbatim>\<open>Grisu2Round\<close>: the memory and the locals
  \<^verbatim>\<open>length\<close>, \<^verbatim>\<open>exponent\<close>, \<^verbatim>\<open>distance\<close>, \<^verbatim>\<open>delta\<close>, \<^verbatim>\<open>rest\<close>, \<^verbatim>\<open>ten_kappa\<close>.\<close>

datatype digit_state = digit_state
  (ds_mem: memory) (ds_length: int) (ds_exponent: int)
  (ds_distance: "64 word") (ds_delta: "64 word") (ds_rest: "64 word") (ds_ten_kappa: "64 word")

text \<open>The loop \<^verbatim>\<open>for (;;)\<close> of the branch \<^verbatim>\<open>p2 > delta\<close>, from its first statement.\<close>

function fraction_loop ::
  "memory \<Rightarrow> int \<Rightarrow> int \<Rightarrow> int \<Rightarrow> 64 word \<Rightarrow> 64 word \<Rightarrow> 64 word \<Rightarrow> DiyFp \<Rightarrow> digit_state result" where
  "fraction_loop mem buffer length' m p2 delta distance one =
     (if \<not> length' < 17 then Abort ''length < 17''
      else if \<not> p2 \<le> UINT64_MAX div 10 then Abort ''p2 <= UINT64_MAX / 10''
      else
        let p2 = p2 * 10;
            d = drop_bit (nat (- e_of one)) p2;
            r = p2 AND (f_of one - 1)
        in if \<not> d \<le> 9 then Abort ''d <= 9''
           else
             let mem = mem(buffer + length' := char_of (of_char (CHR ''0'') + unat d));
                 length' = length' + 1;
                 p2 = r;
                 m = m + 1;
                 delta = delta * 10;
                 distance = distance * 10
             in if p2 \<le> delta
                then Return (digit_state mem length' (- m) distance delta p2 (f_of one))
                else fraction_loop mem buffer length' m p2 delta distance one)"
  by pat_completeness auto
termination
  by (relation "measure (\<lambda>(mem, buffer, length', m, p2, delta, distance, one). nat (17 - length'))")
     auto

text \<open>The loop \<^verbatim>\<open>for (int n = 0; ; ++n)\<close> of the branch \<^verbatim>\<open>p2 <= delta\<close>.\<close>

function integral_loop ::
  "memory \<Rightarrow> int \<Rightarrow> int \<Rightarrow> int \<Rightarrow> 64 word \<Rightarrow> 64 word \<Rightarrow> 64 word \<Rightarrow> 64 word \<Rightarrow> digit_state result" where
  "integral_loop mem buffer k n rest ten_kappa delta distance =
     (if \<not> n \<le> k - 1 then Abort ''n <= k - 1''
      else if \<not> rest \<le> delta then Abort ''rest <= delta''
      else
        let dn = (word_of_int (of_char (mem (buffer + (k - 1 - n))) - of_char (CHR ''0'')) :: 32 word);
            rn = ucast dn * ten_kappa + rest
        in if rn > delta
           then Return (digit_state mem (k - n) n distance delta rest ten_kappa)
           else integral_loop mem buffer k (n + 1) rn (ten_kappa * 10) delta distance)"
  by pat_completeness auto
termination
  by (relation "measure (\<lambda>(mem, buffer, k, n, rest, ten_kappa, delta, distance). nat (k - n))")
     auto

definition Grisu2DigitGen ::
  "memory \<Rightarrow> int \<Rightarrow> DiyFp \<Rightarrow> DiyFp \<Rightarrow> DiyFp \<Rightarrow> (memory \<times> int \<times> int) result" where
  "Grisu2DigitGen mem buffer L w H =
     (if \<not> e_of w \<ge> kAlpha then Abort ''w.e >= kAlpha''
      else if \<not> e_of w \<le> kGamma then Abort ''w.e <= kGamma''
      else if \<not> e_of w = e_of L then Abort ''w.e == L.e''
      else if \<not> e_of w = e_of H then Abort ''w.e == H.e''
      else
        bind (Subtract H w) (\<lambda>H_minus_w.
        bind (Subtract H L) (\<lambda>H_minus_L.
        let distance = f_of H_minus_w;
            delta = f_of H_minus_L;
            one = DiyFp (push_bit (nat (- e_of H)) 1) (e_of H);
            p1 = (ucast (drop_bit (nat (- e_of one)) (f_of H)) :: 32 word);
            p2 = f_of H AND (f_of one - 1)
        in if \<not> p1 \<ge> 4 then Abort ''p1 >= 4''
           else if \<not> p1 \<le> 798336123 then Abort ''p1 <= 798336123''
           else
             bind (GenerateIntegralDigits mem buffer p1) (\<lambda>(mem, buf_end).
             let length' = buf_end - buffer
             in bind
                 (if p2 > delta
                  then fraction_loop mem buffer length' 0 p2 delta distance one
                  else if \<not> push_bit (nat (- e_of one)) (ucast p1) + p2 > delta
                    then Abort ''(uint64_t{p1} << -one.e) + p2 > delta''
                  else
                    let k = length'
                    in if \<not> k \<ge> 0 then Abort ''k >= 0''
                       else if \<not> k \<le> 9 then Abort ''k <= 9''
                       else integral_loop mem buffer k 0 p2 (f_of one) delta distance)
                 (\<lambda>s.
                    bind (Grisu2Round (ds_mem s) buffer (ds_length s) (ds_distance s)
                            (ds_delta s) (ds_rest s) (ds_ten_kappa s)) (\<lambda>mem.
                    Return (mem, ds_length s, ds_exponent s)))))))"

section \<open>Grisu2\<close>

text \<open>\<^verbatim>\<open>Grisu2(buffer, length, exponent, m_minus, v, m_plus)\<close>; the results \<^verbatim>\<open>length\<close> and
  \<^verbatim>\<open>exponent\<close> are returned with the memory.\<close>

definition Grisu2_DiyFp ::
  "memory \<Rightarrow> int \<Rightarrow> DiyFp \<Rightarrow> DiyFp \<Rightarrow> DiyFp \<Rightarrow> (memory \<times> int \<times> int) result" where
  "Grisu2_DiyFp mem buffer m_minus v m_plus =
     (if \<not> e_of v = e_of m_minus then Abort ''v.e == m_minus.e''
      else if \<not> e_of v = e_of m_plus then Abort ''v.e == m_plus.e''
      else
        bind (GetCachedPowerForBinaryExponent (e_of v)) (\<lambda>cached.
        let c_minus_k = DiyFp (cf_of cached) (ce_of cached);
            w = Multiply v c_minus_k;
            w_minus = Multiply m_minus c_minus_k;
            w_plus = Multiply m_plus c_minus_k
        in if \<not> e_of w \<ge> kAlpha then Abort ''w.e >= kAlpha''
           else if \<not> e_of w \<le> kGamma then Abort ''w.e <= kGamma''
           else if \<not> f_of w_plus \<ge> push_bit (64 - 2) 1 then Abort ''w_plus.f >= (uint64_t{1} << (64 - 2))''
           else
             let L = DiyFp (f_of w_minus + 1) (e_of w_minus);
                 H = DiyFp (f_of w_plus - 1) (e_of w_plus)
             in bind (Grisu2DigitGen mem buffer L w H) (\<lambda>(mem, length', exponent).
                Return (mem, length', exponent + - ck_of cached))))"

text \<open>\<^verbatim>\<open>template <typename Fp> Grisu2(buffer, length, exponent, value)\<close>.\<close>

definition Grisu2 :: "memory \<Rightarrow> int \<Rightarrow> Fp \<Rightarrow> (memory \<times> int \<times> int) result" where
  "Grisu2 mem buffer value =
     (if \<not> isfinite value then Abort ''std::isfinite(value)''
      else if \<not> greater_zero value then Abort ''value > 0''
      else
        bind (ComputeBoundaries value) (\<lambda>boundaries.
        Grisu2_DiyFp mem buffer (m_minus_of boundaries) (v_of boundaries) (m_plus_of boundaries)))"

section \<open>Dtoa\<close>

definition kDtoaPositiveMaxLength :: int where
  "kDtoaPositiveMaxLength = 24"

text \<open>\<^verbatim>\<open>std::memset\<close>, \<^verbatim>\<open>std::memmove\<close> and \<^verbatim>\<open>std::memcpy\<close> from a string.\<close>

definition memset :: "memory \<Rightarrow> int \<Rightarrow> char \<Rightarrow> nat \<Rightarrow> memory" where
  "memset mem dest c n = (\<lambda>a. if dest \<le> a \<and> a < dest + int n then c else mem a)"

definition memmove :: "memory \<Rightarrow> int \<Rightarrow> int \<Rightarrow> nat \<Rightarrow> memory" where
  "memmove mem dest src n =
     (\<lambda>a. if dest \<le> a \<and> a < dest + int n then mem (src + (a - dest)) else mem a)"

definition memcpy_string :: "memory \<Rightarrow> int \<Rightarrow> string \<Rightarrow> nat \<Rightarrow> memory" where
  "memcpy_string mem dest source n =
     (\<lambda>a. if dest \<le> a \<and> a < dest + int n then source ! nat (a - dest) else mem a)"

text \<open>The null pointer is the address 0.\<close>

definition nullptr :: int where
  "nullptr = 0"

definition Itoa1000 :: "memory \<Rightarrow> int \<Rightarrow> int \<Rightarrow> (memory \<times> int) result" where
  "Itoa1000 mem buffer value =
     (if \<not> value > - 1000 then Abort ''value > -1000''
      else if \<not> value < 1000 then Abort ''value < 1000''
      else
        let (mem, buffer, value) =
              (if value < 0
               then (mem(buffer := CHR ''-''), buffer + 1, - value)
               else (mem(buffer := CHR ''+''), buffer + 1, value));
            k = (word_of_int value :: 32 word)
        in if k < 10
           then Return (mem(buffer := char_of (of_char (CHR ''0'') + unat k)), buffer + 1)
           else if k < 100
           then Utoa100 mem buffer k
           else
             let q = k div 100;
                 r = k mod 100;
                 mem = mem(buffer := char_of (of_char (CHR ''0'') + unat q));
                 buffer = buffer + 1
             in Utoa100 mem buffer r)"

definition FormatFixed :: "memory \<Rightarrow> int \<Rightarrow> int \<Rightarrow> int \<Rightarrow> bool \<Rightarrow> (memory \<times> int) result" where
  "FormatFixed mem buffer length' decimal_point force_trailing_dot_zero =
     (if \<not> buffer \<noteq> nullptr then Abort ''buffer != nullptr''
      else if \<not> length' \<ge> 1 then Abort ''length >= 1''
      else if length' \<le> decimal_point
      then
        let mem = memset mem (buffer + length') (CHR ''0'') (nat (decimal_point - length'));
            buffer = buffer + decimal_point
        in if force_trailing_dot_zero
           then Return (mem(buffer := CHR ''.'', buffer + 1 := CHR ''0''), buffer + 2)
           else Return (mem, buffer)
      else if 0 < decimal_point
      then
        let mem = memmove mem (buffer + (decimal_point + 1)) (buffer + decimal_point)
                    (nat (length' - decimal_point));
            mem = mem(buffer + decimal_point := CHR ''.'')
        in Return (mem, buffer + (length' + 1))
      else
        let mem = memmove mem (buffer + (2 + - decimal_point)) buffer (nat length');
            mem = mem(buffer + 0 := CHR ''0'');
            mem = mem(buffer + 1 := CHR ''.'');
            mem = memset mem (buffer + 2) (CHR ''0'') (nat (- decimal_point))
        in Return (mem, buffer + (2 + (- decimal_point) + length')))"

definition FormatExponential :: "memory \<Rightarrow> int \<Rightarrow> int \<Rightarrow> int \<Rightarrow> (memory \<times> int) result" where
  "FormatExponential mem buffer length' decimal_point =
     (if \<not> buffer \<noteq> nullptr then Abort ''buffer != nullptr''
      else if \<not> length' \<ge> 1 then Abort ''length >= 1''
      else
        let (mem, buffer) =
              (if length' = 1
               then (mem, buffer + 1)
               else
                 let mem = memmove mem (buffer + 2) (buffer + 1) (nat (length' - 1));
                     mem = mem(buffer + 1 := CHR ''.'')
                 in (mem, buffer + (1 + length')));
            mem = mem(buffer := CHR ''e'');
            buffer = buffer + 1;
            exponent = decimal_point - 1
        in Itoa1000 mem buffer exponent)"

text \<open>\<^verbatim>\<open>StrCopy\<close>: \<open>source\<close> is the characters of the C string before its terminating zero, so
  \<^verbatim>\<open>std::strlen(source)\<close> is its length, and \<open>source\<close> is never null.\<close>

definition StrCopy :: "memory \<Rightarrow> int \<Rightarrow> int \<Rightarrow> string \<Rightarrow> (memory \<times> int) result" where
  "StrCopy mem next last' source =
     (let len = length source
      in if \<not> next \<le> last' then Abort ''next <= last''
         else if \<not> nat (last' - next) \<ge> len then Abort ''static_cast<size_t>(last - next) >= len''
         else Return (memcpy_string mem next source len, next + int len))"

text \<open>The comparison \<^verbatim>\<open>value <= kMaxVal\<close> where \<^verbatim>\<open>kMaxVal\<close> is \<open>2^n\<close> converted to \<^verbatim>\<open>Fp\<close> (exactly,
  for \<open>n\<close> the number of digits): false for a NaN, decided by the sign for an infinity.\<close>

definition less_eq_pow2 :: "Fp \<Rightarrow> nat \<Rightarrow> bool" where
  "less_eq_pow2 value n \<longleftrightarrow>
     \<not> isnan value \<and> (if isinf value then sign_field value else Fp_value value \<le> 2 ^ n)"

definition DtoaPositive :: "memory \<Rightarrow> int \<Rightarrow> int \<Rightarrow> Fp \<Rightarrow> bool \<Rightarrow> (memory \<times> int) result" where
  "DtoaPositive mem next last' value force_trailing_dot_zero =
     (if \<not> last' - next \<ge> kDtoaPositiveMaxLength then Abort ''last - next >= kDtoaPositiveMaxLength''
      else if \<not> isfinite value then Abort ''std::isfinite(value)''
      else if \<not> greater_zero value then Abort ''value > 0''
      else
        bind (Grisu2 mem next value) (\<lambda>(mem, length', exponent).
        if \<not> length' \<le> max_digits10 value
        then Abort ''length <= std::numeric_limits<Fp>::max_digits10''
        else
          let decimal_point = length' + exponent;
              kMinExp = - 6;
              use_fixed = (kMinExp < decimal_point \<and> less_eq_pow2 value (digits value))
          in bind (if use_fixed
                   then FormatFixed mem next length' decimal_point force_trailing_dot_zero
                   else FormatExponential mem next length' decimal_point) (\<lambda>(mem, end').
             if \<not> end' - next \<le> kDtoaPositiveMaxLength
             then Abort ''end - next <= kDtoaPositiveMaxLength''
             else Return (mem, end'))))"

definition Dtoa ::
  "memory \<Rightarrow> int \<Rightarrow> int \<Rightarrow> Fp \<Rightarrow> bool \<Rightarrow> string \<Rightarrow> string \<Rightarrow> (memory \<times> int) result" where
  "Dtoa mem next last' value force_trailing_dot_zero nan_string inf_string =
     (if isnan value then StrCopy mem next last' nan_string
      else
        let (mem, next, value) =
              (if signbit value
               then (mem(next := CHR ''-''), next + 1, negate value)
               else (mem, next, value))
        in if isinf value then StrCopy mem next last' inf_string
           else if is_zero value
           then
             let mem = mem(next := CHR ''0'');
                 next = next + 1
             in if force_trailing_dot_zero
                then Return (mem(next := CHR ''.'', next + 1 := CHR ''0''), next + 2)
                else Return (mem, next)
           else DtoaPositive mem next last' value force_trailing_dot_zero)"

text \<open>\<^verbatim>\<open>Dtoa\<close> with the default arguments.\<close>

definition Dtoa_default :: "memory \<Rightarrow> int \<Rightarrow> int \<Rightarrow> Fp \<Rightarrow> (memory \<times> int) result" where
  "Dtoa_default mem next last' value = Dtoa mem next last' value False ''NaN'' ''Infinity''"

text \<open>The bytes a call wrote: from the pointer passed to the pointer returned.\<close>

definition written :: "int \<Rightarrow> (memory \<times> int) result \<Rightarrow> string result" where
  "written next r = bind r (\<lambda>(mem, end'). Return (bytes mem next (nat (end' - next))))"

section \<open>Multiply: the three implementations\<close>

lemma round_split: "(p::nat) div 2 ^ 64 + (p mod 2 ^ 64) div 2 ^ 63 = (p + 2 ^ 63) div 2 ^ 64"
proof -
  define q r where "q = p div 2 ^ 64" and "r = p mod 2 ^ 64"
  have p: "p = q * 2 ^ 64 + r" and r: "r < 2 ^ 64" by (simp_all add: q_def r_def)
  have a: "(q * 2 ^ 64 + r + 2 ^ 63) div 2 ^ 64 = q + (r + 2 ^ 63) div 2 ^ 64"
    by (simp add: add.assoc)
  have b: "(r + 2 ^ 63) div 2 ^ 64 = r div 2 ^ 63"
  proof (cases "r < 2 ^ 63")
    case True
    then show ?thesis by simp
  next
    case False
    then have "r div 2 ^ 63 = 1" using r by (intro div_nat_eqI) simp_all
    moreover have "(r + 2 ^ 63) div 2 ^ 64 = 1" using r False by (intro div_nat_eqI) simp_all
    ultimately show ?thesis by simp
  qed
  show ?thesis using a b unfolding p [symmetric] by (simp add: q_def r_def)
qed

lemma unat64_le: "unat (a :: 64 word) \<le> 2 ^ 64 - 1"
  using unsigned_less [of a, where 'a = nat] by simp

lemma prod_bound: "unat (a :: 64 word) * unat (b :: 64 word) \<le> (2 ^ 64 - 1) * (2 ^ 64 - 1)"
  by (rule mult_le_mono) (rule unat64_le)+

lemma round_bound: "(unat (a :: 64 word) * unat (b :: 64 word) + 2 ^ 63) div 2 ^ 64 < 2 ^ 64"
proof -
  have "unat a * unat b + 2 ^ 63 \<le> (2 ^ 64 - 1) * (2 ^ 64 - 1) + 2 ^ 63"
    using prod_bound [of a b] by simp
  then have "(unat a * unat b + 2 ^ 63) div 2 ^ 64 \<le> ((2 ^ 64 - 1) * (2 ^ 64 - 1) + 2 ^ 63) div 2 ^ 64"
    by (rule div_le_mono)
  also have "\<dots> < (2::nat) ^ 64" by simp
  finally show ?thesis .
qed

lemma unat_of_nat64: "n < 2 ^ 64 \<Longrightarrow> unat (word_of_nat n :: 64 word) = n"
  by (simp add: unat_of_nat)

lemma high_low_sum:
  fixes h l :: "64 word" and p :: nat
  assumes pb: "p \<le> (2 ^ 64 - 1) * (2 ^ 64 - 1)"
    and h: "unat h = p div 2 ^ 64" and l: "unat l = p mod 2 ^ 64"
  shows "unat (h + drop_bit 63 l) = (p + 2 ^ 63) div 2 ^ 64"
proof -
  have dl: "unat (drop_bit 63 l) = (p mod 2 ^ 64) div 2 ^ 63"
    by (simp only: unat_drop_bit_eq l) (simp add: drop_bit_eq_div)
  have "(p + 2 ^ 63) div 2 ^ 64 \<le> ((2 ^ 64 - 1) * (2 ^ 64 - 1) + 2 ^ 63) div 2 ^ 64"
    using pb by (intro div_le_mono) simp
  also have "\<dots> < (2::nat) ^ 64" by simp
  finally have s: "unat h + unat (drop_bit 63 l) < 2 ^ 64"
    by (simp only: h dl round_split)
  have "unat (h + drop_bit 63 l) = unat h + unat (drop_bit 63 l)"
    using s by (simp add: unat_add_lem [THEN iffD1])
  then show ?thesis by (simp only: h dl round_split)
qed

lemma umul128_f:
  "unat (f_of (Multiply_umul128 x y)) = (unat (f_of x) * unat (f_of y) + 2 ^ 63) div 2 ^ 64"
proof -
  define p where "p = unat (f_of x) * unat (f_of y)"
  have pb: "p \<le> (2 ^ 64 - 1) * (2 ^ 64 - 1)" unfolding p_def by (rule prod_bound)
  have hb: "p div 2 ^ 64 < 2 ^ 64"
    using pb by (simp add: less_mult_imp_div_less)
  have h: "unat (word_of_nat (p div 2 ^ 64) :: 64 word) = p div 2 ^ 64"
    using hb by (rule unat_of_nat64)
  have l: "unat (word_of_nat p :: 64 word) = p mod 2 ^ 64"
    by (simp add: unat_of_nat)
  show ?thesis
    using high_low_sum [OF pb h l]
    by (simp add: Multiply_umul128_def umul128_def Let_def p_def)
qed

lemma unat_ucast_64_128: "unat (ucast (a :: 64 word) :: 128 word) = unat a"
proof -
  have "unat a < 2 ^ 128"
    using unat64_le [of a] by simp
  then show ?thesis
    by (simp add: unsigned_ucast_eq take_bit_nat_eq_self)
qed

lemma int128_f:
  "unat (f_of (Multiply_int128 x y)) = (unat (f_of x) * unat (f_of y) + 2 ^ 63) div 2 ^ 64"
proof -
  define p where "p = unat (f_of x) * unat (f_of y)"
  define P :: "128 word" where "P = ucast (f_of x) * ucast (f_of y)"
  have pb: "p \<le> (2 ^ 64 - 1) * (2 ^ 64 - 1)" unfolding p_def by (rule prod_bound)
  then have p128: "p < 2 ^ 128" by simp
  have "unat (ucast (f_of x) :: 128 word) * unat (ucast (f_of y) :: 128 word) < 2 ^ LENGTH(128)"
    using p128 by (simp add: unat_ucast_64_128 p_def)
  then have "unat P = unat (ucast (f_of x) :: 128 word) * unat (ucast (f_of y) :: 128 word)"
    unfolding P_def by (rule unat_mult_lem [THEN iffD1])
  then have P: "unat P = p" by (simp add: unat_ucast_64_128 p_def)
  have hb: "p div 2 ^ 64 < 2 ^ 64"
    using pb by (simp add: less_mult_imp_div_less)
  have h: "unat (ucast (drop_bit 64 P) :: 64 word) = p div 2 ^ 64"
  proof -
    have "unat (drop_bit 64 P) = p div 2 ^ 64"
      by (simp only: unat_drop_bit_eq P) (simp add: drop_bit_eq_div)
    then show ?thesis
      using hb by (simp only: unsigned_ucast_eq) (simp add: take_bit_nat_eq_self)
  qed
  have l: "unat (ucast P :: 64 word) = p mod 2 ^ 64"
    by (simp add: unsigned_ucast_eq P take_bit_eq_mod)
  show ?thesis
    using high_low_sum [OF pb h l]
    by (simp add: Multiply_int128_def Let_def P_def [symmetric] p_def)
qed


lemma schoolbook_nat:
  fixes al ah bl bh :: nat
  shows "((al + 2 ^ 32 * ah) * (bl + 2 ^ 32 * bh) + 2 ^ 63) div 2 ^ 64 =
         ah * bh + (ah * bl) div 2 ^ 32 + (al * bh) div 2 ^ 32 +
         ((al * bl) div 2 ^ 32 + (al * bh) mod 2 ^ 32 + (ah * bl) mod 2 ^ 32 + 2 ^ 31) div 2 ^ 32"
proof -
  define p0 p1 p2 p3 where "p0 = al * bl" and "p1 = al * bh" and "p2 = ah * bl" and "p3 = ah * bh"
  define Q where "Q = p0 div 2 ^ 32 + p1 mod 2 ^ 32 + p2 mod 2 ^ 32 + 2 ^ 31"
  define H where "H = p3 + p2 div 2 ^ 32 + p1 div 2 ^ 32"
  define l0 h0 l1 h1 l2 h2 where "l0 = p0 mod 2 ^ 32" and "h0 = p0 div 2 ^ 32"
    and "l1 = p1 mod 2 ^ 32" and "h1 = p1 div 2 ^ 32"
    and "l2 = p2 mod 2 ^ 32" and "h2 = p2 div 2 ^ 32"
  have s0: "p0 = l0 + 2 ^ 32 * h0" by (simp add: l0_def h0_def)
  have s1: "p1 = l1 + 2 ^ 32 * h1" by (simp add: l1_def h1_def)
  have s2: "p2 = l2 + 2 ^ 32 * h2" by (simp add: l2_def h2_def)
  have QH: "Q = h0 + l1 + l2 + 2 ^ 31" "H = p3 + h2 + h1"
    by (simp_all add: Q_def H_def l1_def l2_def h0_def h1_def h2_def)
  have "(al + 2 ^ 32 * ah) * (bl + 2 ^ 32 * bh) + 2 ^ 63 = p0 + 2 ^ 32 * (p1 + p2) + 2 ^ 64 * p3 + 2 ^ 63"
    by (simp add: p0_def p1_def p2_def p3_def algebra_simps)
  also have "\<dots> = (l0 + 2 ^ 32 * h0) + 2 ^ 32 * ((l1 + 2 ^ 32 * h1) + (l2 + 2 ^ 32 * h2)) + 2 ^ 64 * p3 + 2 ^ 63"
    by (simp only: s0 [symmetric] s1 [symmetric] s2 [symmetric])
  also have "\<dots> = l0 + 2 ^ 32 * Q + 2 ^ 64 * H"
    by (simp add: QH algebra_simps)
  finally have e: "(al + 2 ^ 32 * ah) * (bl + 2 ^ 32 * bh) + 2 ^ 63 = p0 mod 2 ^ 32 + 2 ^ 32 * Q + 2 ^ 64 * H"
    by (simp add: l0_def)
  have "(p0 mod 2 ^ 32 + 2 ^ 32 * Q + 2 ^ 64 * H) div 2 ^ 64 = H + (p0 mod 2 ^ 32 + 2 ^ 32 * Q) div 2 ^ 64"
    by simp
  moreover have "(p0 mod 2 ^ 32 + 2 ^ 32 * Q) div 2 ^ 64 = Q div 2 ^ 32"
  proof -
    have "(p0 mod 2 ^ 32 + 2 ^ 32 * Q) div (2 ^ 32 * 2 ^ 32) = ((p0 mod 2 ^ 32 + 2 ^ 32 * Q) div 2 ^ 32) div 2 ^ 32"
      by (rule div_mult2_eq)
    moreover have "(p0 mod 2 ^ 32 + 2 ^ 32 * Q) div 2 ^ 32 = Q" by simp
    ultimately show ?thesis by simp
  qed
  ultimately show ?thesis
    unfolding e by (simp add: H_def Q_def p0_def p1_def p2_def p3_def)
qed


lemma unat_lo32: "unat (ucast (ucast (a :: 64 word) :: 32 word) :: 64 word) = unat a mod 2 ^ 32"
  by (simp add: unsigned_ucast_eq take_bit_eq_mod unat_mod_distrib)

lemma unat_hi32: "unat (ucast (ucast (drop_bit 32 (a :: 64 word)) :: 32 word) :: 64 word) = unat a div 2 ^ 32"
proof -
  have "unat a div 2 ^ 32 < 2 ^ 32"
    using unat64_le [of a] by (simp add: less_mult_imp_div_less)
  moreover have "unat (drop_bit 32 a) = unat a div 2 ^ 32"
    by (simp only: unat_drop_bit_eq) (simp add: drop_bit_eq_div)
  ultimately show ?thesis
    by (simp add: unsigned_ucast_eq take_bit_eq_mod unat_mod_distrib)
qed

lemma unat_mult32:
  fixes x y :: "64 word"
  assumes "unat x < 2 ^ 32" "unat y < 2 ^ 32"
  shows "unat (x * y) = unat x * unat y"
proof -
  have "unat x * unat y < 2 ^ 32 * 2 ^ 32"
    using assms by (intro mult_strict_mono) simp_all
  then have "unat x * unat y < 2 ^ LENGTH(64)" by simp
  then show ?thesis by (rule unat_mult_lem [THEN iffD1])
qed

lemma unat_and_low32: "unat ((p :: 64 word) AND 0xFFFFFFFF) = unat p mod 2 ^ 32"
proof -
  have "(0xFFFFFFFF :: 64 word) = mask 32" by (simp add: mask_eq_exp_minus_1)
  then show ?thesis
    by (simp only: flip: take_bit_eq_mask) (simp add: unsigned_take_bit_eq take_bit_eq_mod unat_mod_distrib)
qed

lemma unat_shr32: "unat (drop_bit 32 (p :: 64 word)) = unat p div 2 ^ 32"
  by (simp only: unat_drop_bit_eq) (simp add: drop_bit_eq_div)

lemma unat_add64:
  fixes x y :: "64 word"
  shows "unat x + unat y < 2 ^ 64 \<Longrightarrow> unat (x + y) = unat x + unat y"
  using unat_add_lem [of x y] by simp

lemma schoolbook_f:
  "unat (f_of (Multiply_schoolbook x y)) = (unat (f_of x) * unat (f_of y) + 2 ^ 63) div 2 ^ 64"
proof -
  define a b where "a = unat (f_of x)" and "b = unat (f_of y)"
  define al ah bl bh where "al = a mod 2 ^ 32" and "ah = a div 2 ^ 32"
    and "bl = b mod 2 ^ 32" and "bh = b div 2 ^ 32"
  define u_lo u_hi v_lo v_hi :: "64 word" where
    "u_lo = ucast (ucast (f_of x) :: 32 word)" and "u_hi = ucast (ucast (drop_bit 32 (f_of x)) :: 32 word)"
    and "v_lo = ucast (ucast (f_of y) :: 32 word)" and "v_hi = ucast (ucast (drop_bit 32 (f_of y)) :: 32 word)"
  have u: "unat u_lo = al" "unat u_hi = ah" "unat v_lo = bl" "unat v_hi = bh"
    unfolding u_lo_def u_hi_def v_lo_def v_hi_def al_def ah_def bl_def bh_def a_def b_def
    by (rule unat_lo32 unat_hi32)+
  have lt: "al < 2 ^ 32" "ah < 2 ^ 32" "bl < 2 ^ 32" "bh < 2 ^ 32"
    using unat64_le [of "f_of x"] unat64_le [of "f_of y"]
    by (simp_all add: al_def ah_def bl_def bh_def a_def b_def less_mult_imp_div_less)
  define p0 p1 p2 p3 where "p0 = u_lo * v_lo" and "p1 = u_lo * v_hi" and "p2 = u_hi * v_lo" and "p3 = u_hi * v_hi"
  have p: "unat p0 = al * bl" "unat p1 = al * bh" "unat p2 = ah * bl" "unat p3 = ah * bh"
    unfolding p0_def p1_def p2_def p3_def using lt by (simp_all add: unat_mult32 u)
  define Q0 where "Q0 = drop_bit 32 p0 + (p1 AND 0xFFFFFFFF) + (p2 AND 0xFFFFFFFF)"
  have q1: "unat (drop_bit 32 p0) = (al * bl) div 2 ^ 32" by (simp only: unat_shr32 p)
  have q2: "unat (p1 AND 0xFFFFFFFF) = (al * bh) mod 2 ^ 32" by (simp only: unat_and_low32 p)
  have q3: "unat (p2 AND 0xFFFFFFFF) = (ah * bl) mod 2 ^ 32" by (simp only: unat_and_low32 p)
  have q1b: "(al * bl) div 2 ^ 32 < 2 ^ 32"
  proof -
    have "al * bl < 2 ^ 32 * 2 ^ 32" using lt by (intro mult_strict_mono) simp_all
    then show ?thesis by (simp add: less_mult_imp_div_less)
  qed
  have q2b: "(al * bh) mod 2 ^ 32 < 2 ^ 32" and q3b: "(ah * bl) mod 2 ^ 32 < 2 ^ 32" by simp_all
  have "unat (drop_bit 32 p0 + (p1 AND 0xFFFFFFFF)) = (al * bl) div 2 ^ 32 + (al * bh) mod 2 ^ 32"
    using q1b q2b by (subst unat_add64) (simp_all only: q1 q2, simp)
  then have Q0: "unat Q0 = (al * bl) div 2 ^ 32 + (al * bh) mod 2 ^ 32 + (ah * bl) mod 2 ^ 32"
    unfolding Q0_def using q1b q2b q3b by (subst unat_add64) (simp_all only: q3, simp)
  define Q where "Q = Q0 + push_bit (63 - 32) 1"
  have Q: "unat Q = (al * bl) div 2 ^ 32 + (al * bh) mod 2 ^ 32 + (ah * bl) mod 2 ^ 32 + 2 ^ 31"
  proof -
    have r: "unat (push_bit (63 - 32) 1 :: 64 word) = 2 ^ 31" by simp
    show ?thesis
      unfolding Q_def using q1b q2b q3b by (subst unat_add64) (simp_all only: Q0 r, simp)
  qed
  define S where "S = ah * bh + (ah * bl) div 2 ^ 32 + (al * bh) div 2 ^ 32 + unat Q div 2 ^ 32"
  have ab: "a = al + 2 ^ 32 * ah" "b = bl + 2 ^ 32 * bh"
    by (simp_all add: al_def ah_def bl_def bh_def)
  have S: "S = (a * b + 2 ^ 63) div 2 ^ 64"
    unfolding S_def Q ab by (rule schoolbook_nat [symmetric])
  have Sb: "S < 2 ^ 64"
    unfolding S a_def b_def by (rule round_bound)
  have d: "unat (drop_bit 32 p2) = (ah * bl) div 2 ^ 32" "unat (drop_bit 32 p1) = (al * bh) div 2 ^ 32"
    "unat (drop_bit 32 Q) = unat Q div 2 ^ 32"
    by (simp_all only: unat_shr32 p)
  have "unat p3 + unat (drop_bit 32 p2) < 2 ^ 64"
    using Sb unfolding S_def p d by linarith
  then have t1: "unat (p3 + drop_bit 32 p2) = ah * bh + (ah * bl) div 2 ^ 32"
    by (simp only: unat_add64 p d)
  have "unat (p3 + drop_bit 32 p2) + unat (drop_bit 32 p1) < 2 ^ 64"
    using Sb unfolding S_def t1 d by linarith
  then have t2: "unat (p3 + drop_bit 32 p2 + drop_bit 32 p1) = ah * bh + (ah * bl) div 2 ^ 32 + (al * bh) div 2 ^ 32"
    by (simp only: unat_add64 t1 d)
  have "unat (p3 + drop_bit 32 p2 + drop_bit 32 p1) + unat (drop_bit 32 Q) < 2 ^ 64"
    using Sb unfolding S_def t2 d by linarith
  then have t3: "unat (p3 + drop_bit 32 p2 + drop_bit 32 p1 + drop_bit 32 Q) = S"
    by (simp only: unat_add64 t2 d S_def)
  have "f_of (Multiply_schoolbook x y) = p3 + drop_bit 32 p2 + drop_bit 32 p1 + drop_bit 32 Q"
    by (simp add: Multiply_schoolbook_def Let_def Q_def Q0_def p0_def p1_def p2_def p3_def
          u_lo_def u_hi_def v_lo_def v_hi_def)
  then show ?thesis
    using t3 by (simp only: S a_def b_def)
qed


lemma Multiply_spec_f:
  "unat (f_of (Multiply_spec x y)) = (unat (f_of x) * unat (f_of y) + 2 ^ 63) div 2 ^ 64"
  using round_bound [of "f_of x" "f_of y"] by (simp add: Multiply_spec_def unat_of_nat64)

lemma DiyFp_eqI: "unat (f_of a) = unat (f_of b) \<Longrightarrow> e_of a = e_of b \<Longrightarrow> a = b"
  by (cases a; cases b) (simp add: word_unat_eq_iff)

lemma Multiply_umul128_spec: "Multiply_umul128 x y = Multiply_spec x y"
  by (rule DiyFp_eqI) (simp_all only: umul128_f Multiply_spec_f,
      simp_all add: Multiply_umul128_def Multiply_spec_def Let_def split: prod.splits)

lemma Multiply_int128_spec: "Multiply_int128 x y = Multiply_spec x y"
  by (rule DiyFp_eqI) (simp_all only: int128_f Multiply_spec_f,
      simp_all add: Multiply_int128_def Multiply_spec_def Let_def)

lemma Multiply_schoolbook_spec: "Multiply_schoolbook x y = Multiply_spec x y"
  by (rule DiyFp_eqI) (simp_all only: schoolbook_f Multiply_spec_f,
      simp_all add: Multiply_schoolbook_def Multiply_spec_def Let_def)

lemma Multiply_f: "unat (f_of (Multiply x y)) = (unat (f_of x) * unat (f_of y) + 2 ^ 63) div 2 ^ 64"
  by (simp only: Multiply_def int128_f)

lemma Multiply_e: "e_of (Multiply x y) = e_of x + e_of y + 64"
  by (simp add: Multiply_def Multiply_int128_def Let_def)

text \<open>
  Claim C2.  For every pair of DiyFp values \<open>x\<close> and \<open>y\<close>, the 128-bit intrinsic, the widening
  multiplication and the four-32x32 schoolbook decomposition (which adds the rounding bit
  \<open>2^31\<close> to the cross term \<open>Q\<close> before shifting \<open>Q\<close> right by 32) all return the DiyFp with
  significand \<open>\<lfloor>(x.f * y.f + 2^63) / 2^64\<rfloor>\<close> and exponent \<open>x.e + y.e + 64\<close>.
\<close>

theorem Multiply_strategies_agree:
  "Multiply_umul128 x y = Multiply_spec x y
   \<and> Multiply_int128 x y = Multiply_spec x y
   \<and> Multiply_schoolbook x y = Multiply_spec x y
   \<and> unat (f_of (Multiply_spec x y)) = (unat (f_of x) * unat (f_of y) + 2 ^ 63) div 2 ^ 64
   \<and> e_of (Multiply_spec x y) = e_of x + e_of y + 64"
  by (simp only: Multiply_umul128_spec Multiply_int128_spec Multiply_schoolbook_spec Multiply_spec_f)
     (simp add: Multiply_spec_def)

section \<open>Cached-power lookup\<close>

lemma chain_covers:
  "chain_ok t rs \<Longrightarrow> chain_bottom t rs < e \<Longrightarrow> e \<le> t \<Longrightarrow>
   \<exists>j < length rs. fst (snd (rs ! j)) \<le> e \<and> e \<le> snd (snd (rs ! j))"
proof (induction t rs rule: chain_ok.induct)
  case (1 t)
  then show ?case by simp
next
  case (2 t i lo hi rs)
  show ?case
  proof (cases "lo \<le> e")
    case True
    then have "fst (snd (((i, lo, hi) # rs) ! 0)) \<le> e \<and> e \<le> snd (snd (((i, lo, hi) # rs) ! 0))"
      using "2.prems" by simp
    then show ?thesis by (intro exI [of _ 0]) simp
  next
    case False
    have a: "chain_ok (lo - 1) rs" using "2.prems"(1) by simp
    have b: "chain_bottom (lo - 1) rs < e" using "2.prems"(2) by simp
    have c: "e \<le> lo - 1" using False by simp
    from "2.IH" [OF a b c] obtain j where j: "j < length rs"
      "fst (snd (rs ! j)) \<le> e \<and> e \<le> snd (snd (rs ! j))" by auto
    then show ?thesis by (intro exI [of _ "Suc j"]) simp
  qed
qed

lemma ranges_chain: "chain_ok 960 exponent_ranges \<and> chain_bottom 960 exponent_ranges = - 1138"
  by (simp add: exponent_ranges_def)

lemma ranges_idx: "map fst exponent_ranges = map int [0..<79]"
  by (simp add: exponent_ranges_def upt_conv_Cons)


lemma sdiv_mono: "a \<le> b \<Longrightarrow> 0 < c \<Longrightarrow> (a::int) sdiv c \<le> b sdiv c"
proof -
  assume ab: "a \<le> b" and c: "0 < c"
  consider "0 \<le> a" | "a < 0" "0 \<le> b" | "a < 0" "b < 0" by linarith
  then show ?thesis
  proof cases
    case 1
    then have "a sdiv c = a div c" "b sdiv c = b div c"
      using ab c by (simp_all add: signed_divide_int_def sgn_if)
    then show ?thesis using ab c by (simp add: zdiv_mono1)
  next
    case 2
    have "a sdiv c = - ((- a) div c)" using 2 c by (simp add: signed_divide_int_def sgn_if)
    moreover have "0 \<le> (- a) div c" using 2 c by (simp add: pos_imp_zdiv_nonneg_iff)
    moreover have "b sdiv c = b div c" using 2 c by (simp add: signed_divide_int_def sgn_if)
    moreover have "0 \<le> b div c" using 2 c by (simp add: pos_imp_zdiv_nonneg_iff)
    ultimately show ?thesis by linarith
  next
    case 3
    have "a sdiv c = - ((- a) div c)" "b sdiv c = - ((- b) div c)"
      using 3 c by (simp_all add: signed_divide_int_def sgn_if)
    moreover have "(- b) div c \<le> (- a) div c" using ab c by (intro zdiv_mono1) simp_all
    ultimately show ?thesis by linarith
  qed
qed

lemma cached_power_index_antimono: "e \<le> e' \<Longrightarrow> cached_power_index e' \<le> cached_power_index e"
proof -
  assume le: "e \<le> e'"
  have 1: "(kAlpha - e' - 1) * 78913 \<le> (kAlpha - e - 1) * 78913" using le by simp
  have 2: "((kAlpha - e' - 1) * 78913) sdiv 2 ^ 18 \<le> ((kAlpha - e - 1) * 78913) sdiv 2 ^ 18"
    by (rule sdiv_mono [OF 1]) simp
  have 3: "(if kAlpha - e' - 1 > 0 then 1 else 0 :: int) \<le> (if kAlpha - e - 1 > 0 then 1 else 0)"
    using le by simp
  have "cached_power_k e' \<le> cached_power_k e"
    unfolding cached_power_k_def Let_def using 2 3 by (rule add_mono)
  then have "- kCachedPowersMinDecExp + cached_power_k e' + (kCachedPowersDecExpStep - 1)
           \<le> - kCachedPowersMinDecExp + cached_power_k e + (kCachedPowersDecExpStep - 1)" by simp
  then show ?thesis
    unfolding cached_power_index_def by (rule sdiv_mono) (simp add: kCachedPowersDecExpStep_def)
qed

lemma ranges_ok: "list_all2 range_ok exponent_ranges kCachedPowers"
  by (simp add: exponent_ranges_def kCachedPowers_def range_ok_def cached_power_index_def cached_power_k_def
      kAlpha_def kGamma_def kCachedPowersMinDecExp_def kCachedPowersDecExpStep_def signed_divide_int_def)


lemma length_exponent_ranges: "length exponent_ranges = 79"
  by (simp add: exponent_ranges_def)

lemma length_kCachedPowers: "length kCachedPowers = 79"
  by (simp add: kCachedPowers_def)

lemma cached_power_lookup:
  assumes "- 1137 \<le> e" "e \<le> 960"
  shows "\<exists>j < 79. cached_power_index e = int j
           \<and> fst (snd (exponent_ranges ! j)) \<le> e \<and> e \<le> snd (snd (exponent_ranges ! j))
           \<and> kAlpha \<le> ce_of (kCachedPowers ! j) + e + 64
           \<and> ce_of (kCachedPowers ! j) + e + 64 \<le> kGamma"
proof -
  have "chain_ok 960 exponent_ranges" "chain_bottom 960 exponent_ranges < e"
    using ranges_chain assms by simp_all
  from chain_covers [OF this assms(2)] obtain j where j: "j < 79"
    and lo: "fst (snd (exponent_ranges ! j)) \<le> e" and hi: "e \<le> snd (snd (exponent_ranges ! j))"
    by (auto simp: length_exponent_ranges)
  have ok: "range_ok (exponent_ranges ! j) (kCachedPowers ! j)"
    using list_all2_nthD [OF ranges_ok, of j] j by (simp add: length_exponent_ranges)
  have "map fst exponent_ranges ! j = map int [0..<79] ! j" by (simp only: ranges_idx)
  then have i: "fst (exponent_ranges ! j) = int j"
    using j by (simp add: length_exponent_ranges)
  have "cached_power_index e \<le> int j"
    using cached_power_index_antimono [OF lo] ok i by (simp add: range_ok_def)
  moreover have "int j \<le> cached_power_index e"
    using cached_power_index_antimono [OF hi] ok i by (simp add: range_ok_def)
  ultimately have "cached_power_index e = int j" by simp
  moreover have "kAlpha \<le> ce_of (kCachedPowers ! j) + e + 64"
    using ok lo by (simp add: range_ok_def)
  moreover have "ce_of (kCachedPowers ! j) + e + 64 \<le> kGamma"
    using ok hi by (simp add: range_ok_def)
  ultimately show ?thesis using j lo hi by blast
qed

lemma GetCachedPowerForBinaryExponent_eq:
  "GetCachedPowerForBinaryExponent e =
     (if \<not> e \<ge> - 1500 then Abort ''e >= -1500''
      else if \<not> e \<le> 1500 then Abort ''e <= 1500''
      else if \<not> cached_power_index e \<ge> 0 then Abort ''index >= 0''
      else if \<not> cached_power_index e < kCachedPowersSize then Abort ''index < kCachedPowersSize''
      else bind (GetCachedPower (cached_power_index e)) (\<lambda>cached.
             if \<not> kAlpha \<le> ce_of cached + e + 64 then Abort ''kAlpha <= cached.e + e + 64''
             else if \<not> kGamma \<ge> ce_of cached + e + 64 then Abort ''kGamma >= cached.e + e + 64''
             else Return cached))"
  by (simp add: GetCachedPowerForBinaryExponent_def cached_power_index_def cached_power_k_def Let_def)

lemma GetCachedPowerForBinaryExponent_Return:
  assumes "- 1137 \<le> e" "e \<le> 960"
  shows "GetCachedPowerForBinaryExponent e = Return (kCachedPowers ! nat (cached_power_index e))
         \<and> 0 \<le> cached_power_index e \<and> cached_power_index e < 79
         \<and> kAlpha \<le> ce_of (kCachedPowers ! nat (cached_power_index e)) + e + 64
         \<and> ce_of (kCachedPowers ! nat (cached_power_index e)) + e + 64 \<le> kGamma"
proof -
  from cached_power_lookup [OF assms] obtain j where j: "j < 79" "cached_power_index e = int j"
    "kAlpha \<le> ce_of (kCachedPowers ! j) + e + 64" "ce_of (kCachedPowers ! j) + e + 64 \<le> kGamma"
    by blast
  then show ?thesis
    using assms
    by (simp add: GetCachedPowerForBinaryExponent_eq GetCachedPower_def bind_def kCachedPowersSize_def)
qed

lemma cached_power_k_floor:
  assumes "- 1137 \<le> e" "e \<le> 960"
  shows "cached_power_k e =
           (kAlpha - e - 1) * 78913 div 2 ^ 18 + (if kAlpha - e - 1 \<noteq> 0 then 1 else 0)"
proof -
  define f where "f = kAlpha - e - 1"
  have fb: "- 1021 \<le> f" "f \<le> 1076" using assms by (simp_all add: f_def kAlpha_def)
  have nd: "\<not> (2 ^ 18 :: int) dvd f * 78913" if "f \<noteq> 0"
  proof
    assume "(2 ^ 18 :: int) dvd f * 78913"
    moreover have "coprime (2 ^ 18 :: int) 78913"
      by (simp only: coprime_power_left_iff coprime_left_2_iff_odd) simp
    ultimately have "(2 ^ 18 :: int) dvd f" by (simp add: coprime_dvd_mult_left_iff)
    then have "2 ^ 18 \<le> \<bar>f\<bar>" using that dvd_imp_le_int [of f "2 ^ 18"] by simp
    then show False using fb by simp
  qed
  have "(f * 78913) sdiv 2 ^ 18 + (if f > 0 then 1 else 0)
        = f * 78913 div 2 ^ 18 + (if f \<noteq> 0 then 1 else 0)"
  proof (cases "f = 0")
    case True
    then show ?thesis by simp
  next
    case False
    then show ?thesis
      using nd [OF False] by (auto simp: signed_divide_int_eq_divide_int sgn_if)
  qed
  then show ?thesis by (simp add: cached_power_k_def Let_def f_def)
qed

text \<open>
  Claim C3, counterexample.  For \<open>e = 0\<close> (the exponent of the normalized \<open>2^63\<close>) the code computes
  \<open>f = -61\<close> and \<open>k = -18\<close>: the C++ division truncates \<open>-4813693 / 262144\<close> towards zero.
  The claim's formula \<open>\<lfloor>f * 78913 / 2^18\<rfloor> + (1 if f > 0 else 0)\<close> gives \<open>-19\<close>.
\<close>

theorem cached_power_k_not_floor_formula:
  "cached_power_k 0 = - 18 \<and> cached_power_k_spec 0 = - 19"
  by (simp add: cached_power_k_def cached_power_k_spec_def kAlpha_def signed_divide_int_def)

text \<open>
  Claim C3, as the code has it.  For every binary exponent \<open>e\<close> in \<open>[-1137, 960]\<close> (this
  covers every normalized DiyFp obtained from a finite positive single or double),
  \<^verbatim>\<open>GetCachedPowerForBinaryExponent(e)\<close> computes
  \<open>k = \<lfloor>f * 78913 / 2^18\<rfloor> + (1 if f \<noteq> 0 else 0)\<close> with \<open>f = \<alpha> - e - 1\<close> (the quotient of the
  code truncates towards zero), the table index satisfies \<open>0 \<le> index < 79\<close>, no assertion
  fails, and the returned cached power \<open>c\<close> satisfies \<open>\<alpha> \<le> c.e + e + 64 \<le> \<gamma>\<close>.
\<close>

theorem cached_power_for_binary_exponent:
  assumes "- 1137 \<le> e" "e \<le> 960"
  shows "cached_power_k e =
           (kAlpha - e - 1) * 78913 div 2 ^ 18 + (if kAlpha - e - 1 \<noteq> 0 then 1 else 0)
         \<and> 0 \<le> cached_power_index e \<and> cached_power_index e < 79
         \<and> (\<exists>c. GetCachedPowerForBinaryExponent e = Return c
                \<and> c = kCachedPowers ! nat (cached_power_index e)
                \<and> kAlpha \<le> ce_of c + e + 64 \<and> ce_of c + e + 64 \<le> kGamma)"
  using GetCachedPowerForBinaryExponent_Return [OF assms] cached_power_k_floor [OF assms]
  by simp

theorem cached_power_for_binary_exponent_witness:
  "cached_power_k 0 =
           (kAlpha - 0 - 1) * 78913 div 2 ^ 18 + (if kAlpha - 0 - 1 \<noteq> 0 then 1 else 0)
         \<and> 0 \<le> cached_power_index 0 \<and> cached_power_index 0 < 79
         \<and> (\<exists>c. GetCachedPowerForBinaryExponent 0 = Return c
                \<and> c = kCachedPowers ! nat (cached_power_index 0)
                \<and> kAlpha \<le> ce_of c + 0 + 64 \<and> ce_of c + 0 + 64 \<le> kGamma)"
  using cached_power_for_binary_exponent [of 0] by simp

section \<open>Normalize and ComputeBoundaries\<close>

lemma bit_word_unat_odd: "bit (x :: 64 word) n \<longleftrightarrow> odd (unat x div 2 ^ n)"
proof (cases "n < 64")
  case True
  have "bit x n \<longleftrightarrow> bit (unat x) n" by (simp add: bit_unsigned_iff)
  also have "\<dots> \<longleftrightarrow> odd (unat x div 2 ^ n)" by (rule bit_iff_odd)
  finally show ?thesis .
next
  case False
  then have "\<not> bit x n" using bit_imp_le_length [of x n] by auto
  moreover have "unat x div 2 ^ n = 0"
  proof -
    have "unat x < 2 ^ 64" using unat64_le [of x] by simp
    also have "(2::nat) ^ 64 \<le> 2 ^ n" using False by (intro power_increasing) simp_all
    finally show ?thesis by simp
  qed
  ultimately show ?thesis by simp
qed

lemma clz_from_bounds:
  "unat x < 2 ^ n \<Longrightarrow> x \<noteq> 0 \<Longrightarrow>
     clz_from n x < n \<and> 2 ^ (n - 1 - clz_from n x) \<le> unat x \<and> unat x < 2 ^ (n - clz_from n x)"
proof (induction n)
  case 0
  then show ?case by (simp add: unat_eq_0)
next
  case (Suc n)
  show ?case
  proof (cases "bit x n")
    case True
    then have "odd (unat x div 2 ^ n)" by (simp add: bit_word_unat_odd)
    then have "1 \<le> unat x div 2 ^ n" by (cases "unat x div 2 ^ n") simp_all
    then have "2 ^ n \<le> unat x" by (simp add: less_eq_div_iff_mult_less_eq)
    then show ?thesis using True Suc.prems by simp
  next
    case False
    then have ev: "even (unat x div 2 ^ n)" by (simp add: bit_word_unat_odd)
    have "unat x div 2 ^ n < 2" using Suc.prems(1) by (simp add: less_mult_imp_div_less)
    then have "unat x div 2 ^ n = 0" using ev by (cases "unat x div 2 ^ n") auto
    then have "unat x < 2 ^ n" by (simp add: div_eq_0_iff)
    from Suc.IH [OF this Suc.prems(2)] show ?thesis using False by simp
  qed
qed

lemma builtin_clzll_bounds:
  assumes "x \<noteq> 0"
  shows "builtin_clzll x < 64" "2 ^ (63 - builtin_clzll x) \<le> unat x" "unat x < 2 ^ (64 - builtin_clzll x)"
proof -
  have "unat x < 2 ^ 64" using unat64_le [of x] by simp
  from clz_from_bounds [OF this assms] show "builtin_clzll x < 64"
    "2 ^ (63 - builtin_clzll x) \<le> unat x" "unat x < 2 ^ (64 - builtin_clzll x)"
    by (simp_all add: builtin_clzll_def)
qed

lemma unat_push_bit64:
  fixes x :: "64 word"
  assumes "unat x * 2 ^ n < 2 ^ 64"
  shows "unat (push_bit n x) = unat x * 2 ^ n"
proof -
  have "unat (push_bit n x) = take_bit 64 (push_bit n (unat x))"
    by (simp only: unsigned_push_bit_eq) simp
  also have "\<dots> = unat x * 2 ^ n"
    using assms by (simp add: push_bit_eq_mult take_bit_nat_eq_self)
  finally show ?thesis .
qed

lemma Normalize_Return:
  assumes "f_of x \<noteq> 0"
  shows "\<exists>lz. lz = builtin_clzll (f_of x) \<and> lz < 64
           \<and> Normalize x = Return (DiyFp (push_bit lz (f_of x)) (e_of x - int lz))
           \<and> unat (push_bit lz (f_of x)) = unat (f_of x) * 2 ^ lz
           \<and> 2 ^ 63 \<le> unat (f_of x) * 2 ^ lz \<and> unat (f_of x) * 2 ^ lz < 2 ^ 64"
proof -
  define lz where "lz = builtin_clzll (f_of x)"
  note b = builtin_clzll_bounds [OF assms, folded lz_def]
  have "unat (f_of x) * 2 ^ lz < 2 ^ (64 - lz) * 2 ^ lz" using b(3) by simp
  also have "\<dots> = 2 ^ 64" using b(1) by (simp flip: power_add)
  finally have up: "unat (f_of x) * 2 ^ lz < 2 ^ 64" .
  have "(2::nat) ^ 63 = 2 ^ (63 - lz) * 2 ^ lz" using b(1) by (simp flip: power_add)
  also have "\<dots> \<le> unat (f_of x) * 2 ^ lz" using b(2) by simp
  finally have lo: "2 ^ 63 \<le> unat (f_of x) * 2 ^ lz" .
  show ?thesis
    using assms b(1) up lo unat_push_bit64 [OF up]
    by (intro exI [of _ lz]) (simp add: Normalize_def Let_def lz_def)
qed


lemma NormalizeTo_shift:
  assumes "unat fx * 2 ^ d < 2 ^ 64"
  shows "NormalizeTo (DiyFp fx (e + int d)) e = Return (DiyFp (push_bit d fx) e)"
    and "unat (push_bit d fx) = unat fx * 2 ^ d"
proof -
  show u: "unat (push_bit d fx) = unat fx * 2 ^ d"
    using assms by (rule unat_push_bit64)
  have "unat (drop_bit d (push_bit d fx)) = unat fx"
    by (simp only: unat_drop_bit_eq u) (simp add: drop_bit_eq_div)
  then have "drop_bit d (push_bit d fx) = fx" by (simp only: word_unat_eq_iff)
  then show "NormalizeTo (DiyFp fx (e + int d)) e = Return (DiyFp (push_bit d fx) e)"
    by (simp add: NormalizeTo_def Let_def)
qed

lemma exponent_field_code:
  assumes "\<not> sign_field value"
  shows "drop_bit (digits value - 1) (ReinterpretBits value) = exponent_field value"
proof (cases "value")
  case (Single b)
  have "drop_bit 23 (ucast b :: 64 word) AND mask 8 = drop_bit 23 (ucast b)"
  proof (rule bit_word_eqI)
    fix n assume "n < LENGTH(64)"
    have "\<not> bit b 31" using assms Single by (simp add: sign_field_def bit_simps)
    then have "8 \<le> n \<longrightarrow> \<not> bit b (23 + n)"
      using bit_imp_le_length [of b "23 + n"] by (cases "n = 8") auto
    then show "bit (drop_bit 23 (ucast b :: 64 word) AND mask 8) n = bit (drop_bit 23 (ucast b :: 64 word)) n"
      by (auto simp: bit_simps)
  qed
  then show ?thesis using Single by (simp add: exponent_field_def mask_eq_exp_minus_1)
next
  case (Double b)
  have "drop_bit 52 b AND mask 11 = drop_bit 52 b"
  proof (rule bit_word_eqI)
    fix n assume "n < LENGTH(64)"
    have "\<not> bit b 63" using assms Double by (simp add: sign_field_def)
    then have "11 \<le> n \<longrightarrow> \<not> bit b (52 + n)"
      using bit_imp_le_length [of b "52 + n"] by (cases "n = 11") auto
    then show "bit (drop_bit 52 b AND mask 11) n = bit (drop_bit 52 b) n"
      by (auto simp: bit_simps)
  qed
  then show ?thesis using Double by (simp add: exponent_field_def mask_eq_exp_minus_1)
qed

lemma fraction_field_code:
  "ReinterpretBits value AND (push_bit (digits value - 1) 1 - 1) = fraction_field value"
  by (simp add: fraction_field_def push_bit_eq_mult)

lemma unat_and_mask64: "unat ((x :: 64 word) AND mask n) < 2 ^ n"
  by (simp add: unsigned_take_bit_eq flip: take_bit_eq_mask)

lemma fraction_field_less: "unat (fraction_field value) < 2 ^ (digits value - 1)"
  unfolding fraction_field_def mask_eq_exp_minus_1 [symmetric] by (rule unat_and_mask64)

lemma exponent_field_less: "unat (exponent_field value) < 2 ^ (width value - digits value)"
  unfolding exponent_field_def mask_eq_exp_minus_1 [symmetric] by (rule unat_and_mask64)

lemma digits_cases: "digits value = 24 \<and> width value = 32 \<and> max_exponent value = 128
     \<or> digits value = 53 \<and> width value = 64 \<and> max_exponent value = 1024"
  by (cases "value") simp_all


lemma static_cast_int_small: "unat x < 2 ^ 31 \<Longrightarrow> static_cast_int x = int (unat x)"
proof -
  assume a: "unat x < 2 ^ 31"
  have u: "unat (ucast x :: 32 word) = unat x"
    using a by (simp add: unsigned_ucast_eq take_bit_nat_eq_self)
  have "uint (ucast x :: 32 word) = int (unat x)"
    using u by (metis of_nat_unat)
  moreover have "int (unat x) < int (2 ^ 31)" using a by (simp only: of_nat_less_iff)
  ultimately have "uint (ucast x :: 32 word) < 2 ^ 31" "0 \<le> uint (ucast x :: 32 word)"
    "uint (ucast x :: 32 word) = int (unat x)" by simp_all
  then have "signed_take_bit 31 (uint (ucast x :: 32 word)) = uint (ucast x :: 32 word)"
  proof (intro signed_take_bit_int_eq_self)
    have "- (2 ^ 31) \<le> (0::int)" by simp
    also have "(0::int) \<le> uint (ucast x :: 32 word)" by simp
    finally show "- (2 ^ 31) \<le> uint (ucast x :: 32 word)" .
  qed (use \<open>uint (ucast x :: 32 word) < 2 ^ 31\<close> in simp)
  then show ?thesis
    using \<open>uint (ucast x :: 32 word) = int (unat x)\<close>
    by (simp only: static_cast_int_def sint_uint) simp
qed

lemma decode_f_pos: "greater_zero value \<Longrightarrow> 0 < decode_f value"
  by (auto simp: greater_zero_def is_zero_def decode_f_def unat_gt_0)

lemma fraction_plus_hidden_less:
  "unat (fraction_field value) + 2 ^ (digits value - 1) < 2 ^ digits value"
proof -
  have "unat (fraction_field value) + 2 ^ (digits value - 1) < 2 ^ (digits value - 1) + 2 ^ (digits value - 1)"
    using fraction_field_less [of "value"] by simp
  also have "\<dots> = 2 ^ digits value" using digits_cases [of "value"] by auto
  finally show ?thesis .
qed

lemma decode_f_less: "decode_f value < 2 ^ digits value"
  using fraction_plus_hidden_less [of "value"] by (simp add: decode_f_def)

lemma pow_digits_le: "(2::nat) ^ digits value \<le> 2 ^ 53"
  using digits_cases [of "value"] by auto

lemma decode_f_less64: "decode_f value < 2 ^ 53"
proof -
  show ?thesis using decode_f_less [of "value"] pow_digits_le [of "value"] by simp
qed

lemma ComputeBoundaries_eq:
  assumes "isfinite value" "greater_zero value"
  shows "ComputeBoundaries value =
     (let v = DiyFp (word_of_nat (decode_f value)) (decode_e value);
          m_plus = DiyFp (2 * f_of v + 1) (e_of v - 1);
          m_minus = (if lower_boundary_is_closer value
                     then DiyFp (4 * f_of v - 1) (e_of v - 2)
                     else DiyFp (2 * f_of v - 1) (e_of v - 1))
      in bind (Normalize v) (\<lambda>w.
         bind (NormalizeTo m_plus (e_of w)) (\<lambda>w_plus.
         bind (NormalizeTo m_minus (e_of w_plus)) (\<lambda>w_minus.
         Return (Boundaries w w_minus w_plus)))))"
proof -
  have ns: "\<not> sign_field value" using assms(2) by (simp add: greater_zero_def)
  note E = exponent_field_code [OF ns]
  note F = fraction_field_code [of "value"]
  have Eb: "unat (exponent_field value) < 2 ^ 31"
  proof -
    have "(2::nat) ^ (width value - digits value) \<le> 2 ^ 31"
      using digits_cases [of "value"] by auto
    then show ?thesis using exponent_field_less [of "value"] by simp
  qed
  have hb: "unat (push_bit (digits value - 1) 1 :: 64 word) = 2 ^ (digits value - 1)"
    using digits_cases [of "value"] by auto
  have "unat (fraction_field value) + unat (push_bit (digits value - 1) 1 :: 64 word) < 2 ^ 64"
  proof -
    have "unat (fraction_field value) + 2 ^ (digits value - 1) < 2 ^ 53"
      using fraction_plus_hidden_less [of "value"] pow_digits_le [of "value"] by simp
    then show ?thesis by (simp only: hb) simp
  qed
  then have Fh: "unat (fraction_field value + push_bit (digits value - 1) 1)
      = unat (fraction_field value) + 2 ^ (digits value - 1)"
    by (simp only: unat_add64 hb)
  have v: "(if exponent_field value = 0
            then DiyFp (fraction_field value) (1 - bias value)
            else DiyFp (fraction_field value + push_bit (digits value - 1) 1)
                   (static_cast_int (exponent_field value) - bias value))
           = DiyFp (word_of_nat (decode_f value)) (decode_e value)"
    using Fh by (auto simp: decode_f_def decode_e_def static_cast_int_small [OF Eb]
        word_unat_eq_iff unat_of_nat64 intro!: DiyFp_eqI)
  show ?thesis
    unfolding ComputeBoundaries_def Let_def E F
    using assms
    by (simp only: v [unfolded bias_def] lower_boundary_is_closer_def simp_thms if_True if_False DiyFp.sel)
qed


lemma bind_Return [simp]: "bind (Return v) k = k v"
  by (simp add: bind_def)

lemma bind_Abort [simp]: "bind (Abort msg) k = Abort msg"
  by (simp add: bind_def)

lemma bind_None [simp]: "bind None k = None"
  by (simp add: bind_def)

lemma boundaries_lz_bounds:
  assumes "greater_zero value"
  shows "64 - digits value \<le> boundaries_lz value" "boundaries_lz value < 64"
    "2 ^ 63 \<le> decode_f value * 2 ^ boundaries_lz value"
    "(decode_f value + 1) * 2 ^ boundaries_lz value \<le> 2 ^ 64"
proof -
  define vf where "vf = decode_f value"
  define lz where "lz = builtin_clzll (word_of_nat vf)"
  have lz_def': "boundaries_lz value = lz" by (simp add: lz_def boundaries_lz_def vf_def)
  have vf: "0 < vf" "vf < 2 ^ digits value" "vf < 2 ^ 64"
    using decode_f_pos [OF assms] decode_f_less [of "value"] decode_f_less64 [of "value"]
    by (simp_all add: vf_def)
  have u: "unat (word_of_nat vf :: 64 word) = vf" using vf(3) by (rule unat_of_nat64)
  then have nz: "(word_of_nat vf :: 64 word) \<noteq> 0" using vf(1) by (auto simp: unat_eq_0)
  from builtin_clzll_bounds [OF nz]
  have b: "lz < 64" "2 ^ (63 - lz) \<le> vf" "vf < 2 ^ (64 - lz)"
    by (simp_all only: u lz_def)
  show "boundaries_lz value < 64" using b(1) by (simp add: lz_def')
  have "(2::nat) ^ (63 - lz) < 2 ^ digits value" using b(2) vf(2) by (rule le_less_trans)
  then have "63 - lz < digits value" by (rule power_less_imp_less_exp [rotated]) simp
  then show "64 - digits value \<le> boundaries_lz value" by (simp add: lz_def')
  have "(2::nat) ^ 63 = 2 ^ (63 - lz) * 2 ^ lz" using b(1) by (simp flip: power_add)
  also have "\<dots> \<le> vf * 2 ^ lz" using b(2) by simp
  finally show "2 ^ 63 \<le> decode_f value * 2 ^ boundaries_lz value" by (simp add: vf_def lz_def')
  have "(vf + 1) * 2 ^ lz \<le> 2 ^ (64 - lz) * 2 ^ lz" using b(3) by (intro mult_right_mono) simp_all
  also have "\<dots> = 2 ^ 64" using b(1) by (simp flip: power_add)
  finally show "(decode_f value + 1) * 2 ^ boundaries_lz value \<le> 2 ^ 64" by (simp add: vf_def lz_def')
qed

lemma ComputeBoundaries_Return:
  assumes fin: "isfinite value" and pos: "greater_zero value"
  shows "\<exists>w wm wp. ComputeBoundaries value = Return (Boundaries w wm wp)
     \<and> e_of w = decode_e value - int (boundaries_lz value) \<and> e_of wp = e_of w \<and> e_of wm = e_of w
     \<and> unat (f_of w) = decode_f value * 2 ^ boundaries_lz value
     \<and> unat (f_of wp) = (2 * decode_f value + 1) * 2 ^ (boundaries_lz value - 1)
     \<and> unat (f_of wm) = (if lower_boundary_is_closer value
                          then (4 * decode_f value - 1) * 2 ^ (boundaries_lz value - 2)
                          else (2 * decode_f value - 1) * 2 ^ (boundaries_lz value - 1))"
proof -
  define vf lz ve where "vf = decode_f value" and "lz = boundaries_lz value" and "ve = decode_e value"
  define V :: "64 word" where "V = word_of_nat vf"
  define k where "k = lz - 2"
  define a :: nat where "a = 2 ^ k"
  note lzb = boundaries_lz_bounds [OF pos, folded vf_def lz_def]
  have lz2: "2 \<le> lz" using lzb(1) digits_cases [of "value"] by auto
  then have lzk: "lz = k + 2" by (simp add: k_def)
  have p2: "(2::nat) ^ (lz - 2) = a" and p1: "(2::nat) ^ (lz - 1) = 2 * a" and p0: "(2::nat) ^ lz = 4 * a"
    by (simp_all add: lzk a_def)
  have vf: "0 < vf" "vf < 2 ^ 53"
    using decode_f_pos [OF pos] decode_f_less64 [of "value"] by (simp_all add: vf_def)
  have uV: "unat V = vf" unfolding V_def using vf(2) by (intro unat_of_nat64) simp
  have Vnz: "f_of (DiyFp V ve) \<noteq> 0" using uV vf(1) by (auto simp: unat_eq_0)
  have apos: "0 < a" by (simp add: a_def)
  have up: "(vf + 1) * (4 * a) \<le> 2 ^ 64" using lzb(4) by (simp only: p0)
  have "vf * (4 * a) < (vf + 1) * (4 * a)" using apos by simp
  then have up': "vf * (4 * a) < 2 ^ 64" using up by (rule less_le_trans)
  have lo: "2 ^ 63 \<le> vf * (4 * a)" using lzb(3) by (simp only: p0)
  \<comment> \<open>w\<close>
  have N: "Normalize (DiyFp V ve) = Return (DiyFp (push_bit lz V) (ve - int lz))"
    using Vnz by (simp add: Normalize_def Let_def lz_def boundaries_lz_def vf_def V_def)
  have uW: "unat (push_bit lz V) = vf * 2 ^ lz"
    using up' by (intro unat_push_bit64 [of V lz, unfolded uV]) (simp only: p0)
  \<comment> \<open>m+\<close>
  have u2V: "unat (2 * V) = 2 * vf"
    using vf(2) unat_mult_lem [of 2 V] by (simp add: uV)
  have uP: "unat (2 * V + 1) = 2 * vf + 1"
    using vf(2) unat_add_lem [of "2 * V" 1] by (simp add: u2V)
  have eP: "ve - 1 = (ve - int lz) + int (lz - 1)" using lz2 by simp
  have "(2 * vf + 1) * (2 * a) < (vf + 1) * (4 * a)" using apos by simp
  then have "(2 * vf + 1) * (2 * a) < 2 ^ 64" using up by (rule less_le_trans)
  then have "unat (2 * V + 1) * 2 ^ (lz - 1) < 2 ^ 64" by (simp only: uP p1)
  note NP = NormalizeTo_shift(1) [OF this, of "ve - int lz", folded eP] NormalizeTo_shift(2) [OF this, unfolded uP]
  \<comment> \<open>m-, lower boundary not closer\<close>
  have uA: "unat (2 * V - 1) = 2 * vf - 1"
  proof -
    have "1 \<le> 2 * V" using u2V vf(1) by (simp add: word_le_nat_alt)
    then show ?thesis by (simp add: unat_sub u2V)
  qed
  have "(2 * vf - 1) * (2 * a) < (vf + 1) * (4 * a)" using apos vf(1) by (simp add: algebra_simps)
  then have "(2 * vf - 1) * (2 * a) < 2 ^ 64" using up by (rule less_le_trans)
  then have "unat (2 * V - 1) * 2 ^ (lz - 1) < 2 ^ 64" by (simp only: uA p1)
  note NA = NormalizeTo_shift(1) [OF this, of "ve - int lz", folded eP] NormalizeTo_shift(2) [OF this, unfolded uA]
  \<comment> \<open>m-, lower boundary closer\<close>
  have u4V: "unat (4 * V) = 4 * vf"
    using vf(2) unat_mult_lem [of 4 V] by (simp add: uV)
  have uB: "unat (4 * V - 1) = 4 * vf - 1"
  proof -
    have "1 \<le> 4 * V" using u4V vf(1) by (simp add: word_le_nat_alt)
    then show ?thesis by (simp add: unat_sub u4V)
  qed
  have eB: "ve - 2 = (ve - int lz) + int (lz - 2)" using lz2 by simp
  have "(4 * vf - 1) * a < (vf + 1) * (4 * a)" using apos vf(1) by (simp add: algebra_simps)
  then have "(4 * vf - 1) * a < 2 ^ 64" using up by (rule less_le_trans)
  then have "unat (4 * V - 1) * 2 ^ (lz - 2) < 2 ^ 64" by (simp only: uB p2)
  note NB = NormalizeTo_shift(1) [OF this, of "ve - int lz", folded eB] NormalizeTo_shift(2) [OF this, unfolded uB]
  define W WP WA WB where "W = DiyFp (push_bit lz V) (ve - int lz)"
    and "WP = DiyFp (push_bit (lz - 1) (2 * V + 1)) (ve - int lz)"
    and "WA = DiyFp (push_bit (lz - 1) (2 * V - 1)) (ve - int lz)"
    and "WB = DiyFp (push_bit (lz - 2) (4 * V - 1)) (ve - int lz)"
  have sel: "e_of W = ve - int lz" "e_of WP = ve - int lz" "e_of WA = ve - int lz" "e_of WB = ve - int lz"
    "unat (f_of W) = vf * 2 ^ lz" "unat (f_of WP) = (2 * vf + 1) * 2 ^ (lz - 1)"
    "unat (f_of WA) = (2 * vf - 1) * 2 ^ (lz - 1)" "unat (f_of WB) = (4 * vf - 1) * 2 ^ (lz - 2)"
    by (simp_all only: W_def WP_def WA_def WB_def DiyFp.sel uW NP(2) NA(2) NB(2))
  have R: "\<exists>w wm wp. ComputeBoundaries value = Return (Boundaries w wm wp)
     \<and> e_of w = ve - int lz \<and> e_of wp = e_of w \<and> e_of wm = e_of w
     \<and> unat (f_of w) = vf * 2 ^ lz
     \<and> unat (f_of wp) = (2 * vf + 1) * 2 ^ (lz - 1)
     \<and> unat (f_of wm) = (if lower_boundary_is_closer value
                          then (4 * vf - 1) * 2 ^ (lz - 2)
                          else (2 * vf - 1) * 2 ^ (lz - 1))"
  proof (cases "lower_boundary_is_closer value")
    case True
    have "ComputeBoundaries value = Return (Boundaries W WB WP)"
      unfolding ComputeBoundaries_eq [OF fin pos] Let_def
      by (simp only: DiyFp.sel vf_def [symmetric] ve_def [symmetric] V_def [symmetric]
          True if_True N NP(1) NB(1) bind_Return W_def WP_def WB_def)
    then show ?thesis
      by (intro exI [of _ W] exI [of _ WB] exI [of _ WP]) (simp only: sel True if_True simp_thms)
  next
    case False
    have "ComputeBoundaries value = Return (Boundaries W WA WP)"
      unfolding ComputeBoundaries_eq [OF fin pos] Let_def
      by (simp only: DiyFp.sel vf_def [symmetric] ve_def [symmetric] V_def [symmetric]
          False if_False N NP(1) NA(1) bind_Return W_def WP_def WA_def)
    then show ?thesis
      by (intro exI [of _ W] exI [of _ WA] exI [of _ WP]) (simp only: sel False if_False simp_thms)
  qed
  show ?thesis using R unfolding vf_def lz_def ve_def .
qed


lemma powi_scale: "(of_nat (n * 2 ^ k) :: rat) * 2 powi (e - int k) = of_nat n * 2 powi e"
  by (simp add: power_int_diff)

lemma DiyFp_value_shifted:
  assumes "unat (f_of x) = n * 2 ^ k" "e_of x = e - int k"
  shows "DiyFp_value x = of_nat n * 2 powi e"
  unfolding DiyFp_value_def assms by (rule powi_scale)

lemma Fp_value_pos: "greater_zero value \<Longrightarrow> Fp_value value = of_nat (decode_f value) * 2 powi decode_e value"
  by (simp add: Fp_value_def greater_zero_def)

text \<open>
  Claim C4, as the code has it.  For every finite, strictly positive single or double,
  \<^verbatim>\<open>ComputeBoundaries\<close> returns a triple \<open>(w, w-, w+)\<close> sharing the common exponent \<open>w+.e\<close>, in
  which \<open>w\<close> and \<open>w+\<close> are normalized (significand \<open>\<ge> 2^63\<close>) and \<open>w-\<close> has a significand
  \<open>\<ge> 2^62\<close> that is \<open>\<ge> 2^63\<close> exactly when \<open>w.f \<noteq> 2^63\<close>.  \<open>w\<close> denotes the input value \<open>v\<close>, \<open>w+\<close>
  the midpoint \<open>(2 v.f + 1) * 2^(v.e - 1)\<close> to the successor, and \<open>w-\<close> the midpoint to the
  predecessor, which is \<open>(4 v.f - 1) * 2^(v.e - 2)\<close> exactly when the raw fraction field is zero
  and the biased exponent exceeds 1, and \<open>(2 v.f - 1) * 2^(v.e - 1)\<close> otherwise.
\<close>

theorem ComputeBoundaries_triple:
  assumes "isfinite value" "greater_zero value"
  shows "\<exists>w w_minus w_plus.
     ComputeBoundaries value = Return (Boundaries w w_minus w_plus)
     \<and> 2 ^ 63 \<le> unat (f_of w) \<and> 2 ^ 63 \<le> unat (f_of w_plus)
     \<and> 2 ^ 62 \<le> unat (f_of w_minus)
     \<and> (2 ^ 63 \<le> unat (f_of w_minus) \<longleftrightarrow> unat (f_of w) \<noteq> 2 ^ 63)
     \<and> e_of w = e_of w_plus \<and> e_of w_minus = e_of w_plus
     \<and> DiyFp_value w = Fp_value value
     \<and> DiyFp_value w_plus = of_nat (2 * decode_f value + 1) * 2 powi (decode_e value - 1)
     \<and> DiyFp_value w_minus =
           (if fraction_field value = 0 \<and> exponent_field value > 1
            then of_nat (4 * decode_f value - 1) * 2 powi (decode_e value - 2)
            else of_nat (2 * decode_f value - 1) * 2 powi (decode_e value - 1))"
proof -
  define vf lz ve where "vf = decode_f value" and "lz = boundaries_lz value" and "ve = decode_e value"
  define k where "k = lz - 2"
  define a :: nat where "a = 2 ^ k"
  define t :: nat where "t = 2 ^ (61 - k)"
  note lzb = boundaries_lz_bounds [OF assms(2), folded vf_def lz_def]
  have lz2: "2 \<le> lz" using lzb(1) digits_cases [of "value"] by auto
  then have lzk: "lz = k + 2" by (simp add: k_def)
  have k61: "k \<le> 61" using lzb(2) lzk by simp
  have p2: "(2::nat) ^ (lz - 2) = a" and p1: "(2::nat) ^ (lz - 1) = 2 * a" and p0: "(2::nat) ^ lz = 4 * a"
    by (simp_all add: lzk a_def)
  have apos: "0 < a" by (simp add: a_def)
  have ta: "(2::nat) ^ 63 = t * (4 * a)"
  proof -
    have "(2::nat) ^ 63 = 2 ^ (61 - k) * 2 ^ (k + 2)" using k61 by (simp flip: power_add)
    then show ?thesis by (simp add: t_def a_def)
  qed
  have ta2: "(2::nat) ^ 62 = t * (2 * a)"
  proof -
    have "(2::nat) ^ 62 = 2 ^ (61 - k) * 2 ^ (k + 1)" using k61 by (simp flip: power_add)
    then show ?thesis by (simp add: t_def a_def)
  qed
  have tpos: "0 < t" by (simp add: t_def)
  have "t * (4 * a) \<le> vf * (4 * a)" using lzb(3) by (simp only: p0 ta)
  then have tv: "t \<le> vf" using apos by simp
  from ComputeBoundaries_Return [OF assms, folded vf_def lz_def ve_def, unfolded p0 p1 p2]
  obtain w wm wp where r: "ComputeBoundaries value = Return (Boundaries w wm wp)"
    and e: "e_of w = ve - int lz" "e_of wp = e_of w" "e_of wm = e_of w"
    and fw: "unat (f_of w) = vf * (4 * a)"
    and fp: "unat (f_of wp) = (2 * vf + 1) * (2 * a)"
    and fm: "unat (f_of wm) = (if lower_boundary_is_closer value then (4 * vf - 1) * a else (2 * vf - 1) * (2 * a))"
    by blast
  have n1: "2 ^ 63 \<le> unat (f_of w)" using lzb(3) by (simp only: fw p0)
  have n2: "2 ^ 63 \<le> unat (f_of wp)" using n1 by (simp add: fw fp algebra_simps)
  have m1: "t * (2 * a) \<le> unat (f_of wm)"
  proof (cases "lower_boundary_is_closer value")
    case True
    have "2 * t \<le> 4 * vf - 1" using tv tpos by simp
    then have "(2 * t) * a \<le> (4 * vf - 1) * a" by (rule mult_right_mono) simp
    then show ?thesis by (simp add: fm True ac_simps)
  next
    case False
    have "t \<le> 2 * vf - 1" using tv tpos by simp
    then have "t * (2 * a) \<le> (2 * vf - 1) * (2 * a)" by (rule mult_right_mono) simp
    then show ?thesis by (simp add: fm False)
  qed
  have m2: "t * (4 * a) \<le> unat (f_of wm) \<longleftrightarrow> vf \<noteq> t"
  proof (cases "lower_boundary_is_closer value")
    case True
    have "t * (4 * a) \<le> (4 * vf - 1) * a \<longleftrightarrow> (4 * t) * a \<le> (4 * vf - 1) * a" by (simp add: ac_simps)
    also have "\<dots> \<longleftrightarrow> 4 * t \<le> 4 * vf - 1" using apos by simp
    also have "\<dots> \<longleftrightarrow> vf \<noteq> t" using tv tpos by auto
    finally show ?thesis by (simp add: fm True)
  next
    case False
    have "t * (4 * a) \<le> (2 * vf - 1) * (2 * a) \<longleftrightarrow> (2 * t) * (2 * a) \<le> (2 * vf - 1) * (2 * a)" by (simp add: ac_simps)
    also have "\<dots> \<longleftrightarrow> 2 * t \<le> 2 * vf - 1" using apos by simp
    also have "\<dots> \<longleftrightarrow> vf \<noteq> t" using tv tpos by auto
    finally show ?thesis by (simp add: fm False)
  qed
  have m3: "unat (f_of w) \<noteq> 2 ^ 63 \<longleftrightarrow> vf \<noteq> t"
    using apos by (simp only: fw ta) simp
  have v1: "DiyFp_value w = Fp_value value"
    using DiyFp_value_shifted [of w vf lz ve] fw e
    by (simp add: p0 Fp_value_pos [OF assms(2)] vf_def ve_def)
  have ep: "e_of wp = (ve - 1) - int (lz - 1)" "e_of wm = (ve - 1) - int (lz - 1)"
    "e_of wm = (ve - 2) - int (lz - 2)" using e lz2 by simp_all
  have v2: "DiyFp_value wp = of_nat (2 * vf + 1) * 2 powi (ve - 1)"
    using fp ep(1) by (intro DiyFp_value_shifted) (simp_all only: p1)
  have v3: "DiyFp_value wm = (if lower_boundary_is_closer value
            then of_nat (4 * vf - 1) * 2 powi (ve - 2)
            else of_nat (2 * vf - 1) * 2 powi (ve - 1))"
  proof (cases "lower_boundary_is_closer value")
    case True
    have "DiyFp_value wm = of_nat (4 * vf - 1) * 2 powi (ve - 2)"
      using fm ep(3) True by (intro DiyFp_value_shifted) (simp_all only: p2 if_True)
    then show ?thesis using True by simp
  next
    case False
    have "DiyFp_value wm = of_nat (2 * vf - 1) * 2 powi (ve - 1)"
      using fm ep(2) False by (intro DiyFp_value_shifted) (simp_all only: p1 if_False)
    then show ?thesis using False by simp
  qed
  show ?thesis
    using r n1 n2 m1 m2 m3 e v1 v2 v3
    unfolding ta [symmetric] ta2 [symmetric] vf_def ve_def lower_boundary_is_closer_def
    by (intro exI [of _ w] exI [of _ wm] exI [of _ wp]) simp
qed


theorem ComputeBoundaries_triple_witness:
  "isfinite (Double 0x3FF8000000000000) \<and> greater_zero (Double 0x3FF8000000000000)
   \<and> (\<exists>w w_minus w_plus.
     ComputeBoundaries (Double 0x3FF8000000000000) = Return (Boundaries w w_minus w_plus)
     \<and> 2 ^ 63 \<le> unat (f_of w) \<and> 2 ^ 63 \<le> unat (f_of w_plus)
     \<and> 2 ^ 62 \<le> unat (f_of w_minus)
     \<and> (2 ^ 63 \<le> unat (f_of w_minus) \<longleftrightarrow> unat (f_of w) \<noteq> 2 ^ 63)
     \<and> e_of w = e_of w_plus \<and> e_of w_minus = e_of w_plus
     \<and> DiyFp_value w = Fp_value (Double 0x3FF8000000000000)
     \<and> DiyFp_value w_plus = of_nat (2 * decode_f (Double 0x3FF8000000000000) + 1)
           * 2 powi (decode_e (Double 0x3FF8000000000000) - 1)
     \<and> DiyFp_value w_minus =
           (if fraction_field (Double 0x3FF8000000000000) = 0
               \<and> exponent_field (Double 0x3FF8000000000000) > 1
            then of_nat (4 * decode_f (Double 0x3FF8000000000000) - 1)
                   * 2 powi (decode_e (Double 0x3FF8000000000000) - 2)
            else of_nat (2 * decode_f (Double 0x3FF8000000000000) - 1)
                   * 2 powi (decode_e (Double 0x3FF8000000000000) - 1)))"
proof -
  have h: "isfinite (Double 0x3FF8000000000000)" "greater_zero (Double 0x3FF8000000000000)"
    by code_simp+
  show ?thesis using h ComputeBoundaries_triple [OF h] by simp
qed

text \<open>
  Claim C4, counterexample.  For the double \<open>1.0\<close> (bits \<open>0x3FF0000000000000\<close>) the returned
  \<open>w-\<close> has the significand \<open>0x7FFFFFFFFFFFFE00 = 2^63 - 2^9\<close>, which is below \<open>2^63\<close>: \<open>w-\<close> is
  brought to the exponent of \<open>w+\<close> by \<^verbatim>\<open>NormalizeTo\<close> and is not normalized.
\<close>

theorem ComputeBoundaries_m_minus_not_normalized:
  "ComputeBoundaries (Double 0x3FF0000000000000) =
     Return (Boundaries (DiyFp 0x8000000000000000 (- 63))
                        (DiyFp 0x7FFFFFFFFFFFFE00 (- 63))
                        (DiyFp 0x8000000000000400 (- 63)))
   \<and> unat (0x7FFFFFFFFFFFFE00 :: 64 word) < 2 ^ 63"
proof
  show "ComputeBoundaries (Double 0x3FF0000000000000) =
     Return (Boundaries (DiyFp 0x8000000000000000 (- 63))
                        (DiyFp 0x7FFFFFFFFFFFFE00 (- 63))
                        (DiyFp 0x8000000000000400 (- 63)))"
    by code_simp
  show "unat (0x7FFFFFFFFFFFFE00 :: 64 word) < 2 ^ 63" by simp
qed



end
